theory Spec2Isabelle
  imports Main "HOL-Library.Char_ord" "HOL-Library.List_Lexorder" "HOL-Library.Product_Lexorder"
begin

section \<open>Python values used by the bot\<close>

text \<open>
  A Python \<open>str\<close> is a list of code points; \<open>len\<close> is \<open>length\<close>.  Comparison of two
  \<open>str\<close> is the lexicographic order on code points, which is the order of
  \<open>HOL-Library.List_Lexorder\<close>; comparison of tuples is the lexicographic order of
  \<open>HOL-Library.Product_Lexorder\<close>.

  The name scorer is modelled for code points of any linearly ordered type, and it takes
  \<open>str.lower\<close> and \<open>str.isspace\<close>, which belong to the interpreter and not to the
  repository, as its first two arguments: its properties hold for whatever these functions
  do on Unicode strings (\<open>str.lower\<close> may change the length of a string).  The parser is
  modelled on \<open>string\<close>, one \<open>char\<close> per code point U+0000 .. U+00FF, ordered by
  \<open>HOL-Library.Char_ord\<close>; \<open>lower\<close> and \<open>isspace\<close> below are \<open>str.lower\<close> and
  \<open>str.isspace\<close> on these code points, and the scorer is run with them on concrete inputs.
\<close>

datatype py_error = IndexError | ValueError | OverflowError | IntegrityError | OperationalError

text \<open>\<open>str.isspace\<close> on one code point below U+0100: TAB, LF, VT, FF, CR, FS, GS, RS, US,
  SPACE, NEL and NBSP.\<close>

definition isspace :: "char \<Rightarrow> bool" where
  "isspace c = (of_char c \<in> {9, 10, 11, 12, 13, 28, 29, 30, 31, 32, 133, 160 :: nat})"

text \<open>\<open>str.lower\<close> on one code point below U+0100: A-Z and the Latin-1 capitals
  U+00C0 .. U+00DE (without the multiplication sign U+00D7) move up by 32.\<close>

definition lower_char :: "char \<Rightarrow> char" where
  "lower_char c =
     (let n = (of_char c :: nat)
      in if (65 \<le> n \<and> n \<le> 90) \<or> (192 \<le> n \<and> n \<le> 222 \<and> n \<noteq> 215)
         then char_of (n + 32) else c)"

definition lower :: "string \<Rightarrow> string" where
  "lower s = map lower_char s"

text \<open>\<open>s.startswith(p)\<close>.\<close>

fun startswith :: "'c list \<Rightarrow> 'c list \<Rightarrow> bool" where
  "startswith s [] = True"
| "startswith [] (p # ps) = False"
| "startswith (c # cs) (p # ps) = (c = p \<and> startswith cs ps)"

text \<open>\<open>w in s\<close> for two strings: \<open>w\<close> occurs in \<open>s\<close> as a contiguous substring.\<close>

fun py_in :: "'c list \<Rightarrow> 'c list \<Rightarrow> bool" where
  "py_in w [] = (w = [])"
| "py_in w (c # cs) = (startswith (c # cs) w \<or> py_in w cs)"

text \<open>\<open>s.split()\<close>: the maximal runs of non-whitespace characters, in order;
  \<open>str_isspace\<close> is \<open>str.isspace\<close> on one code point, and \<open>split_from\<close> carries the
  word read so far.\<close>

fun split_from :: "('c \<Rightarrow> bool) \<Rightarrow> 'c list \<Rightarrow> 'c list \<Rightarrow> 'c list list" where
  "split_from str_isspace cur [] = (if cur = [] then [] else [cur])"
| "split_from str_isspace cur (c # cs) =
     (if str_isspace c
      then (if cur = [] then split_from str_isspace [] cs else cur # split_from str_isspace [] cs)
      else split_from str_isspace (cur @ [c]) cs)"

definition split :: "('c \<Rightarrow> bool) \<Rightarrow> 'c list \<Rightarrow> 'c list list" where
  "split str_isspace s = split_from str_isspace [] s"

text \<open>\<open>xs[:n]\<close> for an integer \<open>n\<close>: a negative \<open>n\<close> counts from the end.\<close>

definition slice_to :: "'a list \<Rightarrow> int \<Rightarrow> 'a list" where
  "slice_to xs n = (if n < 0 then take (nat (int (length xs) + n)) xs else take (nat n) xs)"

text \<open>\<open>xs.sort(reverse=True)\<close>: descending order in which equal elements keep their
  original relative order.  Each element is put in front of the first one that is not greater
  than it, starting from the end of the list.\<close>

fun insort_desc :: "'a::linorder \<Rightarrow> 'a list \<Rightarrow> 'a list" where
  "insort_desc x [] = [x]"
| "insort_desc x (y # ys) = (if x < y then y # insort_desc x ys else x # y # ys)"

definition sort_reverse :: "'a::linorder list \<Rightarrow> 'a list" where
  "sort_reverse xs = foldr insort_desc xs []"

section \<open>Name scorer: \<open>get_card_suggestions\<close>\<close>

text \<open>
  In this section \<open>str_lower\<close> is \<open>str.lower\<close> and \<open>str_isspace\<close> is \<open>str.isspace\<close> on
  one code point.

  The body of the loop over \<open>card_database.keys()\<close> for one \<open>card_name\<close>:
  \<open>Inr None\<close> when the card is skipped, \<open>Inr (Some (score, card_name))\<close> for the tuple
  appended to \<open>scored_matches\<close>, \<open>Inl IndexError\<close> when \<open>search_words[0]\<close> is read from
  an empty list.
\<close>

definition score_card ::
  "('c list \<Rightarrow> 'c list) \<Rightarrow> ('c \<Rightarrow> bool) \<Rightarrow> 'c list \<Rightarrow> 'c list list \<Rightarrow> 'c list
     \<Rightarrow> py_error + (int \<times> 'c list) option" where
  "score_card str_lower str_isspace search_terms search_words card_name =
     (let card_lower = str_lower card_name;
          score = (0 :: int);
          all_words_present = list_all (\<lambda>word. py_in word card_lower) search_words
      in if all_words_present then
           (let score = score + 100;
                score = fold (\<lambda>word sc. if word \<in> set (split str_isspace card_lower) then sc + 50
                                     else sc)
                          search_words score
            in case search_words of
                 [] \<Rightarrow> Inl IndexError
               | first_word # _ \<Rightarrow>
                   (let score = (if startswith card_lower first_word then score + 25 else score);
                        length_diff = abs (int (length card_lower) - int (length search_terms));
                        score = score - length_diff
                    in Inr (Some (score, card_name))))
         else Inr None)"

fun score_all ::
  "('c list \<Rightarrow> 'c list) \<Rightarrow> ('c \<Rightarrow> bool) \<Rightarrow> 'c list \<Rightarrow> 'c list list \<Rightarrow> 'c list list
     \<Rightarrow> (int \<times> 'c list) list \<Rightarrow> py_error + (int \<times> 'c list) list" where
  "score_all str_lower str_isspace search_terms search_words [] scored_matches = Inr scored_matches"
| "score_all str_lower str_isspace search_terms search_words (card_name # rest) scored_matches =
     (case score_card str_lower str_isspace search_terms search_words card_name of
        Inl e \<Rightarrow> Inl e
      | Inr None \<Rightarrow>
          score_all str_lower str_isspace search_terms search_words rest scored_matches
      | Inr (Some m) \<Rightarrow>
          score_all str_lower str_isspace search_terms search_words rest (scored_matches @ [m]))"

text \<open>\<open>card_database\<close> is a global dictionary; its keys, in iteration order, are the
  argument \<open>card_database_keys\<close> (a list without repetitions).\<close>

definition get_card_suggestions ::
  "('c::linorder list \<Rightarrow> 'c list) \<Rightarrow> ('c \<Rightarrow> bool) \<Rightarrow> 'c list list \<Rightarrow> 'c list \<Rightarrow> int
     \<Rightarrow> py_error + 'c list list" where
  "get_card_suggestions str_lower str_isspace card_database_keys search_terms max_suggestions =
     (let search_words = split str_isspace (str_lower search_terms)
      in case score_all str_lower str_isspace search_terms search_words card_database_keys [] of
           Inl e \<Rightarrow> Inl e
         | Inr scored_matches \<Rightarrow>
             Inr (map snd (slice_to (sort_reverse scored_matches) max_suggestions)))"

text \<open>The score that the loop gives to one card, if the card survives the filter.\<close>

definition score_of ::
  "('c list \<Rightarrow> 'c list) \<Rightarrow> ('c \<Rightarrow> bool) \<Rightarrow> 'c list \<Rightarrow> 'c list \<Rightarrow> int option" where
  "score_of str_lower str_isspace search_terms card_name =
     (case score_card str_lower str_isspace search_terms
             (split str_isspace (str_lower search_terms)) card_name of
        Inr (Some (score, _)) \<Rightarrow> Some score
      | _ \<Rightarrow> None)"

section \<open>Deck records\<close>

text \<open>
  The dictionary \<open>deck_info\<close> that \<open>parse_deck_list\<close> builds and \<open>save_deck_to_db\<close>
  stores.  \<open>None\<close> is Python's \<open>None\<close> (the importers set \<open>'author': None\<close>); a card
  entry \<open>{'name': n, 'count': c}\<close> is the pair \<open>(n, c)\<close>.
\<close>

record deck_info =
  name :: "string option"
  author :: "string option"
  main_deck :: "(string \<times> int) list"
  extra_deck :: "(string \<times> int) list"
  url :: string

section \<open>Deck markup parser: \<open>parse_deck_list\<close>\<close>

text \<open>
  A parsed document as BeautifulSoup gives it: a text node (\<open>NavigableString\<close>) or an
  element (\<open>Tag\<close>) with its tag name, its \<open>class\<close> attribute (\<open>None\<close> when the element has
  none, else the list of the attribute's whitespace-separated values) and its children.  The
  \<open>BeautifulSoup\<close> object is the root element.  Comments and the contents of \<open>script\<close>,
  \<open>style\<close> and \<open>template\<close> elements are outside the model.
\<close>

datatype node = NavigableString string | Tag string "string list option" "node list"

text \<open>\<open>element.descendants\<close>: all nodes below the element, in document order.\<close>

fun descendants :: "node \<Rightarrow> node list" where
  "descendants (NavigableString s) = []"
| "descendants (Tag tag cls children) = concat (map (\<lambda>child. child # descendants child) children)"

text \<open>The strings below an element, in document order.\<close>

definition all_strings :: "node \<Rightarrow> string list" where
  "all_strings element =
     concat (map (\<lambda>n. case n of NavigableString s \<Rightarrow> [s] | Tag _ _ _ \<Rightarrow> []) (descendants element))"

text \<open>\<open>s.strip()\<close> and \<open>sep.join(xs)\<close>.\<close>

definition strip :: "string \<Rightarrow> string" where
  "strip s = rev (dropWhile isspace (rev (dropWhile isspace s)))"

fun join :: "string \<Rightarrow> string list \<Rightarrow> string" where
  "join sep [] = []"
| "join sep [x] = x"
| "join sep (x # y # ys) = x @ sep @ join sep (y # ys)"

text \<open>\<open>element.get_text(strip=True)\<close>: every string stripped, the empty ones dropped, the
  rest concatenated.  On a text node (the \<open>count_element\<close> found by \<open>string=\<close>) both
  \<open>get_text(strip=True)\<close> and \<open>str(...).strip()\<close> give the stripped string.\<close>

definition get_text_strip :: "node \<Rightarrow> string" where
  "get_text_strip element =
     (case element of
        NavigableString s \<Rightarrow> strip s
      | Tag _ _ _ \<Rightarrow> concat (filter (\<lambda>t. t \<noteq> []) (map strip (all_strings element))))"

text \<open>\<open>element.get_text(separator='\n')\<close>.\<close>

definition get_text_lines :: "node \<Rightarrow> string" where
  "get_text_lines element = join [CHR 0x0A] (all_strings element)"

text \<open>
  \<open>class_=value\<close> in \<open>find\<close> and \<open>find_all\<close>: an element without a \<open>class\<close> attribute
  never matches; otherwise the test (equality with a string, or \<open>search\<close> of a compiled
  pattern) is tried on each value of the attribute and then on the values joined by spaces.
\<close>

definition class_matches :: "(string \<Rightarrow> bool) \<Rightarrow> string list option \<Rightarrow> bool" where
  "class_matches test cls =
     (case cls of None \<Rightarrow> False | Some values \<Rightarrow> list_ex test values \<or> test (join '' '' values))"

text \<open>\<open>element.find_all(names, class_=test)\<close> and \<open>element.find(names, class_=test)\<close>;
  \<open>test = None\<close> when no \<open>class_\<close> is given.  A \<open>Tag\<close> is always true in a condition, so
  \<open>a or b\<close> on results of \<open>find\<close> is the first result that is not \<open>None\<close>.\<close>

definition find_all :: "node \<Rightarrow> string list \<Rightarrow> (string \<Rightarrow> bool) option \<Rightarrow> node list" where
  "find_all element names test =
     filter (\<lambda>n. case n of
                  NavigableString _ \<Rightarrow> False
                | Tag tag cls _ \<Rightarrow>
                    tag \<in> set names \<and> (case test of None \<Rightarrow> True | Some t \<Rightarrow> class_matches t cls))
       (descendants element)"

definition find_tag :: "node \<Rightarrow> string list \<Rightarrow> (string \<Rightarrow> bool) option \<Rightarrow> node option" where
  "find_tag element names test =
     (case find_all element names test of [] \<Rightarrow> None | n # _ \<Rightarrow> Some n)"

text \<open>\<open>element.find(string=pattern)\<close>: the first text node on which the pattern is found.\<close>

definition find_string :: "node \<Rightarrow> (string \<Rightarrow> bool) \<Rightarrow> node option" where
  "find_string element test =
     (case filter (\<lambda>n. case n of NavigableString s \<Rightarrow> test s | Tag _ _ _ \<Rightarrow> False)
             (descendants element) of
        [] \<Rightarrow> None
      | n # _ \<Rightarrow> Some n)"

definition or_else :: "'a option \<Rightarrow> 'a option \<Rightarrow> 'a option" where
  "or_else a b = (case a of Some x \<Rightarrow> Some x | None \<Rightarrow> b)"

subsection \<open>The regular expressions of the parser\<close>

text \<open>\<open>\d\<close> on a code point below U+0100.\<close>

definition isdigit :: "char \<Rightarrow> bool" where
  "isdigit c = (48 \<le> (of_char c :: nat) \<and> (of_char c :: nat) \<le> 57)"

text \<open>\<open>search\<close> of a pattern \<open>a.*b\<close> for two literal words without line feed: \<open>a\<close> occurs
  somewhere, and \<open>b\<close> occurs after it before the next line feed.\<close>

fun search_a_then_b :: "string \<Rightarrow> string \<Rightarrow> string \<Rightarrow> bool" where
  "search_a_then_b a b [] = False"
| "search_a_then_b a b (c # cs) =
     ((startswith (c # cs) a \<and>
       py_in b (takeWhile (\<lambda>x. x \<noteq> CHR 0x0A) (drop (length a) (c # cs))))
      \<or> search_a_then_b a b cs)"

text \<open>\<open>re.compile(r'deck.*part|deck-section', re.I)\<close>; ignoring case is matching the
  lowercased text against the lowercase pattern.\<close>

definition re_deck_part :: "string \<Rightarrow> bool" where
  "re_deck_part s = (search_a_then_b ''deck'' ''part'' (lower s) \<or> py_in ''deck-section'' (lower s))"

text \<open>\<open>re.compile(r'card|card-item')\<close>.\<close>

definition re_card :: "string \<Rightarrow> bool" where
  "re_card s = (py_in ''card'' s \<or> py_in ''card-item'' s)"

text \<open>\<open>re.compile(r'^\d+x?$')\<close>: digits, an optional \<open>x\<close>, and the end of the string or the
  line feed that ends the string.\<close>

definition re_count_token :: "string \<Rightarrow> bool" where
  "re_count_token s =
     (takeWhile isdigit s \<noteq> [] \<and>
      dropWhile isdigit s \<in> set [[], ''x'', [CHR 0x0A], [CHR ''x'', CHR 0x0A]])"

text \<open>\<open>re.compile(r'deck.*table|card.*table')\<close>.\<close>

definition re_deck_table :: "string \<Rightarrow> bool" where
  "re_deck_table s = (search_a_then_b ''deck'' ''table'' s \<or> search_a_then_b ''card'' ''table'' s)"

text \<open>\<open>re.compile(r'Extra Deck', re.I)\<close>.\<close>

definition re_extra_deck :: "string \<Rightarrow> bool" where
  "re_extra_deck s = py_in ''extra deck'' (lower s)"

text \<open>\<open>re.compile(r'name|card')\<close> and \<open>re.compile(r'count|quantity')\<close>.\<close>

definition re_name_card :: "string \<Rightarrow> bool" where
  "re_name_card s = (py_in ''name'' s \<or> py_in ''card'' s)"

definition re_count_quantity :: "string \<Rightarrow> bool" where
  "re_count_quantity s = (py_in ''count'' s \<or> py_in ''quantity'' s)"

text \<open>\<open>re.compile(r'deck.*list|card.*list')\<close>.\<close>

definition re_deck_list :: "string \<Rightarrow> bool" where
  "re_deck_list s = (search_a_then_b ''deck'' ''list'' s \<or> search_a_then_b ''card'' ''list'' s)"

text \<open>\<open>re.search(r'Extra Deck|Extra:', text_content, re.I)\<close>.\<close>

definition re_extra_marker :: "string \<Rightarrow> bool" where
  "re_extra_marker s = (py_in ''extra deck'' (lower s) \<or> py_in ''extra:'' (lower s))"

text \<open>\<open>int(digits)\<close> for a string of decimal digits; CPython, with its default limit on
  integer string conversion, refuses more than 4300 digits with \<open>ValueError\<close>.\<close>

definition py_int :: "string \<Rightarrow> py_error + int" where
  "py_int ds =
     (if int (length ds) > 4300 then Inl ValueError
      else Inr (foldl (\<lambda>a c. 10 * a + (int (of_char c) - 48)) 0 ds))"

text \<open>\<open>re.search(r'\d+', count_text)\<close> and the conversion of the match, as strategies 1 and 2
  do: the first run of digits; \<open>card_count\<close> stays 1 without a match or when \<open>int\<close> raises
  \<open>ValueError\<close>.\<close>

definition count_from_text :: "string \<Rightarrow> int" where
  "count_from_text count_text =
     (let digits = takeWhile isdigit (dropWhile (\<lambda>c. \<not> isdigit c) count_text)
      in if digits = [] then 1
         else case py_int digits of Inl _ \<Rightarrow> 1 | Inr n \<Rightarrow> n)"

text \<open>
  \<open>re.match(r'^\s*(\d+)x?\s+(.+)$', line)\<close> for a line without line feed (the lines come
  from \<open>splitlines\<close>), giving the groups 1 and 2: leading whitespace, the digits, an optional
  \<open>x\<close>, whitespace, and the rest.  When nothing follows the whitespace, the match gives the
  last whitespace character back to group 2, if there are at least two of them.
\<close>

definition match_card_line :: "string \<Rightarrow> (string \<times> string) option" where
  "match_card_line line =
     (let after_space = dropWhile isspace line;
          digits = takeWhile isdigit after_space;
          after_digits = dropWhile isdigit after_space;
          after_x = (case after_digits of
                       [] \<Rightarrow> []
                     | c # cs \<Rightarrow> if c = CHR ''x'' then cs else c # cs);
          spaces = takeWhile isspace after_x;
          rest = dropWhile isspace after_x
      in if digits = [] \<or> spaces = [] then None
         else if rest \<noteq> [] then Some (digits, rest)
         else if length spaces \<ge> 2 then Some (digits, [last spaces])
         else None)"

text \<open>\<open>s.splitlines()\<close>: lines end at LF, CR, CR LF, VT, FF, FS, GS, RS and NEL; the line
  ends are dropped, and a string that ends with a line end has no empty last line.\<close>

definition is_linebreak :: "char \<Rightarrow> bool" where
  "is_linebreak c = (of_char c \<in> {10, 11, 12, 13, 28, 29, 30, 133 :: nat})"

fun splitlines_from :: "string \<Rightarrow> string \<Rightarrow> string list" where
  "splitlines_from cur [] = (if cur = [] then [] else [cur])"
| "splitlines_from cur [c] = (if is_linebreak c then [cur] else [cur @ [c]])"
| "splitlines_from cur (c # d # cs) =
     (if c = CHR 0x0D \<and> d = CHR 0x0A then cur # splitlines_from [] cs
      else if is_linebreak c then cur # splitlines_from [] (d # cs)
      else splitlines_from (cur @ [c]) (d # cs))"

definition splitlines :: "string \<Rightarrow> string list" where
  "splitlines s = splitlines_from [] s"

subsection \<open>The steps of \<open>parse_deck_list\<close>\<close>

text \<open>The loops over the candidate elements for the deck name and the author: the first
  element that exists and whose stripped text is not empty and, lowercased, not one of the
  placeholders.\<close>

fun first_text :: "string list \<Rightarrow> node option list \<Rightarrow> string option" where
  "first_text placeholders [] = None"
| "first_text placeholders (None # elements) = first_text placeholders elements"
| "first_text placeholders (Some element # elements) =
     (let t = get_text_strip element
      in if t \<noteq> [] \<and> lower t \<notin> set placeholders then Some t
         else first_text placeholders elements)"

text \<open>Strategy 1, one card element: the entry to append, if \<open>name_element\<close> exists.\<close>

definition part_card_entry :: "node \<Rightarrow> (string \<times> int) option" where
  "part_card_entry card_element =
     (let name_element =
            or_else (find_tag card_element [''span'', ''div''] (Some (\<lambda>c. c = ''name'')))
           (or_else (find_tag card_element [''span'', ''div''] (Some (\<lambda>c. c = ''card-name'')))
                    (find_tag card_element [''a''] None));
          count_element =
            or_else (find_tag card_element [''span'', ''div''] (Some (\<lambda>c. c = ''quantity'')))
           (or_else (find_tag card_element [''span'', ''div''] (Some (\<lambda>c. c = ''count'')))
                    (find_string card_element re_count_token))
      in case name_element of
           None \<Rightarrow> None
         | Some ne \<Rightarrow>
             Some (get_text_strip ne,
                   case count_element of
                     None \<Rightarrow> 1
                   | Some ce \<Rightarrow> count_from_text (get_text_strip ce)))"

text \<open>The state of the parser: \<open>deck_info\<close> and the flag \<open>parsed_cards\<close>.\<close>

definition append_entry :: "bool \<Rightarrow> string \<times> int \<Rightarrow> deck_info \<Rightarrow> deck_info" where
  "append_entry to_extra entry info =
     (if to_extra then info\<lparr>extra_deck := extra_deck info @ [entry]\<rparr>
      else info\<lparr>main_deck := main_deck info @ [entry]\<rparr>)"

text \<open>Strategy 1, one deck part.\<close>

definition parse_deck_part :: "node \<Rightarrow> deck_info \<times> bool \<Rightarrow> deck_info \<times> bool" where
  "parse_deck_part part st =
     (case or_else (find_tag part [''div'', ''h3'', ''h4''] (Some (\<lambda>c. c = ''header'')))
                   (find_tag part [''div'', ''h3'', ''h4''] None) of
        None \<Rightarrow> st
      | Some header \<Rightarrow>
          (let section_name = lower (get_text_strip header);
               cards = find_all part [''div'', ''span''] (Some re_card)
           in if cards = [] then st
              else (fold (\<lambda>card_element info.
                            case part_card_entry card_element of
                              None \<Rightarrow> info
                            | Some entry \<Rightarrow> append_entry (py_in ''extra'' section_name) entry info)
                      cards (fst st),
                    True)))"

text \<open>Strategy 2, one table.\<close>

definition table_row_entry :: "node \<Rightarrow> (string \<times> int) option" where
  "table_row_entry row =
     (case find_tag row [''td'', ''th''] (Some re_name_card) of
        None \<Rightarrow> None
      | Some name_cell \<Rightarrow>
          Some (get_text_strip name_cell,
                case find_tag row [''td'', ''th''] (Some re_count_quantity) of
                  None \<Rightarrow> 1
                | Some count_cell \<Rightarrow> count_from_text (get_text_strip count_cell)))"

definition parse_table :: "node \<Rightarrow> deck_info \<times> bool \<Rightarrow> deck_info \<times> bool" where
  "parse_table table st =
     (let is_extra = (find_string table re_extra_deck \<noteq> None);
          rows = find_all table [''tr''] None
      in fold (\<lambda>row (info, parsed_cards).
                 case table_row_entry row of
                   None \<Rightarrow> (info, parsed_cards)
                 | Some entry \<Rightarrow> (append_entry is_extra entry info, True))
           rows st)"

text \<open>Strategy 3, one line of a text container: the entry that the line gives, if it
  matches; a line whose count cannot be converted is skipped.\<close>

definition line_entry :: "string \<Rightarrow> (string \<times> int) option" where
  "line_entry line =
     (case match_card_line line of
        None \<Rightarrow> None
      | Some (digits, rest) \<Rightarrow>
          (case py_int digits of
             Inl _ \<Rightarrow> None
           | Inr n \<Rightarrow> Some (strip rest, n)))"

definition parse_text_line :: "bool \<Rightarrow> string \<Rightarrow> deck_info \<times> bool \<Rightarrow> deck_info \<times> bool" where
  "parse_text_line is_extra line st =
     (case line_entry line of
        None \<Rightarrow> st
      | Some entry \<Rightarrow> (append_entry is_extra entry (fst st), True))"

text \<open>Strategy 3, one text container.\<close>

definition parse_text_container :: "node \<Rightarrow> deck_info \<times> bool \<Rightarrow> deck_info \<times> bool" where
  "parse_text_container container st =
     (let text_content = strip (get_text_lines container);
          is_extra = re_extra_marker text_content
      in fold (parse_text_line is_extra) (splitlines text_content) st)"

text \<open>The clean-up loop of one section: \<open>seen\<close> is the set of names met so far, \<open>cleaned\<close>
  the list built so far.\<close>

fun clean_section :: "string set \<Rightarrow> (string \<times> int) list \<Rightarrow> (string \<times> int) list \<Rightarrow> (string \<times> int) list" where
  "clean_section seen cleaned [] = cleaned"
| "clean_section seen cleaned (entry # entries) =
     (if fst entry \<notin> seen then clean_section (insert (fst entry) seen) (cleaned @ [entry]) entries
      else clean_section seen cleaned entries)"

text \<open>\<open>deck_info\<close> when the clean-up starts: name, author, and the entries that the first
  successful strategy appended.\<close>

definition extract_deck :: "node \<Rightarrow> string \<Rightarrow> deck_info" where
  "extract_deck soup source_url =
     (let info = \<lparr>name = Some [], author = Some [], main_deck = [], extra_deck = [],
                  url = source_url\<rparr>;
          info = (case first_text [''master duel'', ''deck builder'', ''deck list'']
                        [find_tag soup [''h1''] (Some (\<lambda>c. c = ''deck-title'')),
                         find_tag soup [''h1''] (Some (\<lambda>c. c = ''title'')),
                         find_tag soup [''div''] (Some (\<lambda>c. c = ''deck-name'')),
                         find_tag soup [''h1''] None,
                         find_tag soup [''title''] None] of
                    None \<Rightarrow> info
                  | Some name_text \<Rightarrow> info\<lparr>name := Some name_text\<rparr>);
          info = (case first_text [''unknown'', ''anonymous'']
                        [find_tag soup [''span''] (Some (\<lambda>c. c = ''username'')),
                         find_tag soup [''div''] (Some (\<lambda>c. c = ''author'')),
                         find_tag soup [''div''] (Some (\<lambda>c. c = ''player-name'')),
                         find_tag soup [''a''] (Some (\<lambda>c. c = ''author-link''))] of
                    None \<Rightarrow> info
                  | Some author_text \<Rightarrow> info\<lparr>author := Some author_text\<rparr>);
          st = (info, False);
          st = fold parse_deck_part (find_all soup [''div'', ''section''] (Some re_deck_part)) st;
          st = (if \<not> snd st then fold parse_table (find_all soup [''table''] (Some re_deck_table)) st
                else st);
          st = (if \<not> snd st
                then fold parse_text_container
                       (find_all soup [''div'', ''pre'', ''code''] (Some re_deck_list)) st
                else st)
      in fst st)"

text \<open>No statement of the \<open>try\<close> block raises outside an inner handler on a parsed
  document, so the function returns \<open>deck_info\<close> after the clean-up.\<close>

definition parse_deck_list :: "node \<Rightarrow> string \<Rightarrow> deck_info" where
  "parse_deck_list soup source_url =
     (let info = extract_deck soup source_url;
          info = info\<lparr>main_deck := clean_section {} [] (main_deck info)\<rparr>;
          info = info\<lparr>extra_deck := clean_section {} [] (extra_deck info)\<rparr>
      in info)"

text \<open>Example documents.\<close>

definition example_text_block :: node where
  "example_text_block =
     Tag ''[document]'' None
       [Tag ''div'' (Some [''deck-list''])
          [NavigableString
             ''3x Ash Blossom\<newline>2x Ghost Ogre\<newline>Extra Deck:\<newline>1x Accesscode Talker'']]"

definition example_main_block :: node where
  "example_main_block =
     Tag ''[document]'' None
       [Tag ''h1'' None [NavigableString ''Blue-Eyes''],
        Tag ''pre'' (Some [''card-list''])
          [NavigableString ''3x Ash Blossom\<newline>2 Ghost Ogre\<newline>1x Ash Blossom'']]"

section \<open>Deck reconciler: \<open>save_deck_to_db\<close>\<close>

text \<open>
  The tables \<open>decks\<close> and \<open>deck_cards\<close> of \<open>init_database\<close>, rows in rowid order, and the
  \<open>sqlite_sequence\<close> entry that \<open>AUTOINCREMENT\<close> keeps for \<open>decks\<close> (the largest id ever
  given).  Identifiers are integers, timestamps are natural numbers.  No
  \<open>PRAGMA foreign_keys\<close> is issued, so SQLite does not enforce the foreign keys of
  \<open>deck_cards\<close>.
\<close>

record deck_row =
  row_id :: int
  row_name :: string
  row_author :: "string option"
  row_url :: string
  created_at :: nat
  last_updated :: nat

record deck_card_row =
  deck_id :: int
  card_name :: string
  is_extra_deck :: bool
  quantity :: int

record database =
  decks :: "deck_row list"
  deck_cards :: "deck_card_row list"
  decks_seq :: int

text \<open>
  A connection holds the persisted database, the view of the open transaction, and the
  number of storage calls made so far.  A storage call is \<open>sqlite3.connect\<close>, one
  \<open>cursor.execute\<close> or \<open>conn.commit\<close>.  The argument \<open>fault\<close> of the operations below
  is \<open>Some k\<close> when the storage layer fails (\<open>OperationalError\<close>) at call number \<open>k\<close>,
  counted from 0, and \<open>None\<close> when it never does.  A statement that raises leaves the
  transaction's view as it was before the statement.
\<close>

record connection =
  persisted :: database
  working :: database
  calls :: nat

definition succeed :: "'a \<Rightarrow> connection \<Rightarrow> (py_error + 'a) \<times> connection" where
  "succeed a conn = (Inr a, conn)"

definition and_then ::
  "(connection \<Rightarrow> (py_error + 'a) \<times> connection) \<Rightarrow> ('a \<Rightarrow> connection \<Rightarrow> (py_error + 'b) \<times> connection)
     \<Rightarrow> connection \<Rightarrow> (py_error + 'b) \<times> connection" where
  "and_then m f conn = (case m conn of (Inl e, conn') \<Rightarrow> (Inl e, conn') | (Inr a, conn') \<Rightarrow> f a conn')"

definition sqlite3_connect :: "nat option \<Rightarrow> database \<Rightarrow> py_error + connection" where
  "sqlite3_connect fault db =
     (if fault = Some 0 then Inl OperationalError
      else Inr \<lparr>persisted = db, working = db, calls = 1\<rparr>)"

definition execute ::
  "nat option \<Rightarrow> (database \<Rightarrow> py_error + 'a \<times> database) \<Rightarrow> connection \<Rightarrow> (py_error + 'a) \<times> connection" where
  "execute fault statement conn =
     (let conn' = conn\<lparr>calls := Suc (calls conn)\<rparr>
      in if fault = Some (calls conn) then (Inl OperationalError, conn')
         else case statement (working conn) of
                Inl e \<Rightarrow> (Inl e, conn')
              | Inr (result, db') \<Rightarrow> (Inr result, conn'\<lparr>working := db'\<rparr>))"

definition commit :: "nat option \<Rightarrow> connection \<Rightarrow> (py_error + unit) \<times> connection" where
  "commit fault conn =
     (let conn' = conn\<lparr>calls := Suc (calls conn)\<rparr>
      in if fault = Some (calls conn) then (Inl OperationalError, conn')
         else (Inr (), conn'\<lparr>persisted := working conn\<rparr>))"

text \<open>Leaving \<open>with sqlite3.connect(DB_PATH) as conn\<close>: commit when the block ended
  normally, roll back when it raised.\<close>

definition connection_exit :: "(py_error + 'a) \<times> connection \<Rightarrow> (py_error + 'a) \<times> connection" where
  "connection_exit r =
     (case r of
        (Inl e, conn) \<Rightarrow> (Inl e, conn\<lparr>working := persisted conn\<rparr>)
      | (Inr a, conn) \<Rightarrow> (Inr a, conn\<lparr>persisted := working conn\<rparr>))"

text \<open>\<open>SELECT id FROM decks WHERE url = ?\<close>, then \<open>fetchone()\<close>.\<close>

definition select_deck_id :: "string \<Rightarrow> database \<Rightarrow> py_error + int option \<times> database" where
  "select_deck_id u db =
     (case filter (\<lambda>r. row_url r = u) (decks db) of
        [] \<Rightarrow> Inr (None, db)
      | r # _ \<Rightarrow> Inr (Some (row_id r), db))"

text \<open>\<open>UPDATE decks SET name = ?, author = ?, last_updated = CURRENT_TIMESTAMP WHERE id = ?\<close>;
  \<open>name\<close> is \<open>NOT NULL\<close>.\<close>

definition update_deck ::
  "string option \<Rightarrow> string option \<Rightarrow> nat \<Rightarrow> int \<Rightarrow> database \<Rightarrow> py_error + unit \<times> database" where
  "update_deck nm au now did db =
     (case nm of
        None \<Rightarrow> (if \<exists>r\<in>set (decks db). row_id r = did then Inl IntegrityError else Inr ((), db))
      | Some n \<Rightarrow>
          Inr ((), db\<lparr>decks :=
                 map (\<lambda>r. if row_id r = did
                           then r\<lparr>row_name := n, row_author := au, last_updated := now\<rparr> else r)
                     (decks db)\<rparr>))"

text \<open>\<open>DELETE FROM deck_cards WHERE deck_id = ?\<close>.\<close>

definition delete_deck_cards :: "int \<Rightarrow> database \<Rightarrow> py_error + unit \<times> database" where
  "delete_deck_cards did db =
     Inr ((), db\<lparr>deck_cards := filter (\<lambda>r. deck_id r \<noteq> did) (deck_cards db)\<rparr>)"

text \<open>\<open>INSERT INTO decks (name, author, url) VALUES (?, ?, ?)\<close>, then \<open>cursor.lastrowid\<close>:
  \<open>name\<close> is \<open>NOT NULL\<close>, \<open>url\<close> is \<open>UNIQUE\<close>, the id is one more than the largest id
  ever used (\<open>AUTOINCREMENT\<close>), and no id follows the largest 64-bit rowid.\<close>

definition insert_deck ::
  "string option \<Rightarrow> string option \<Rightarrow> string \<Rightarrow> nat \<Rightarrow> database \<Rightarrow> py_error + int \<times> database" where
  "insert_deck nm au u now db =
     (case nm of
        None \<Rightarrow> Inl IntegrityError
      | Some n \<Rightarrow>
          if \<exists>r\<in>set (decks db). row_url r = u then Inl IntegrityError
          else (let new_id = fold max (map row_id (decks db)) (decks_seq db) + 1
                in if new_id > 9223372036854775807 then Inl OperationalError
                   else Inr (new_id,
                     db\<lparr>decks := decks db @
                           [\<lparr>row_id = new_id, row_name = n, row_author = au, row_url = u,
                             created_at = now, last_updated = now\<rparr>],
                        decks_seq := new_id\<rparr>)))"

text \<open>\<open>INSERT INTO deck_cards (deck_id, card_name, is_extra_deck, quantity) VALUES (?, ?, e, ?)\<close>:
  a Python integer outside the 64-bit range cannot be bound (\<open>OverflowError\<close>), and
  \<open>(deck_id, card_name)\<close> is the primary key.\<close>

definition insert_deck_card ::
  "int \<Rightarrow> string \<Rightarrow> bool \<Rightarrow> int \<Rightarrow> database \<Rightarrow> py_error + unit \<times> database" where
  "insert_deck_card did n ex q db =
     (if q < - 9223372036854775808 \<or> q > 9223372036854775807 then Inl OverflowError
      else if \<exists>r\<in>set (deck_cards db). deck_id r = did \<and> card_name r = n then Inl IntegrityError
      else Inr ((), db\<lparr>deck_cards := deck_cards db @
                  [\<lparr>deck_id = did, card_name = n, is_extra_deck = ex, quantity = q\<rparr>]\<rparr>))"

text \<open>The two loops \<open>for card in deck_info['main_deck']\<close> and
  \<open>for card in deck_info['extra_deck']\<close>.\<close>

fun insert_cards ::
  "nat option \<Rightarrow> int \<Rightarrow> bool \<Rightarrow> (string \<times> int) list \<Rightarrow> connection \<Rightarrow> (py_error + unit) \<times> connection" where
  "insert_cards fault did ex [] conn = (Inr (), conn)"
| "insert_cards fault did ex (entry # cards) conn =
     (case execute fault (insert_deck_card did (fst entry) ex (snd entry)) conn of
        (Inl e, conn') \<Rightarrow> (Inl e, conn')
      | (Inr _, conn') \<Rightarrow> insert_cards fault did ex cards conn')"

text \<open>The branch \<open>if existing_deck: ... else: ...\<close>, which fixes \<open>deck_id\<close>;
  \<open>now\<close> is the value of \<open>CURRENT_TIMESTAMP\<close>.\<close>

definition update_or_insert_deck ::
  "nat option \<Rightarrow> nat \<Rightarrow> deck_info \<Rightarrow> int option \<Rightarrow> connection \<Rightarrow> (py_error + int) \<times> connection" where
  "update_or_insert_deck fault now d existing_deck =
     (case existing_deck of
        Some did \<Rightarrow>
          and_then (execute fault (update_deck (name d) (author d) now did)) (\<lambda>_.
          and_then (execute fault (delete_deck_cards did)) (\<lambda>_.
          succeed did))
      | None \<Rightarrow> execute fault (insert_deck (name d) (author d) (url d) now))"

text \<open>The body of the \<open>with\<close> block.\<close>

definition save_deck_body ::
  "nat option \<Rightarrow> nat \<Rightarrow> deck_info \<Rightarrow> connection \<Rightarrow> (py_error + bool) \<times> connection" where
  "save_deck_body fault now d =
     and_then (execute fault (select_deck_id (url d))) (\<lambda>existing_deck.
     and_then (update_or_insert_deck fault now d existing_deck) (\<lambda>did.
     and_then (insert_cards fault did False (main_deck d)) (\<lambda>_.
     and_then (insert_cards fault did True (extra_deck d)) (\<lambda>_.
     and_then (commit fault) (\<lambda>_.
     succeed True)))))"

text \<open>The \<open>try\<close> block: what it returned or raised, and the database persisted afterwards.\<close>

definition save_deck_try ::
  "nat option \<Rightarrow> nat \<Rightarrow> deck_info \<Rightarrow> database \<Rightarrow> (py_error + bool) \<times> database" where
  "save_deck_try fault now d db =
     (case sqlite3_connect fault db of
        Inl e \<Rightarrow> (Inl e, db)
      | Inr conn \<Rightarrow>
          (case connection_exit (save_deck_body fault now d conn) of
             (r, conn') \<Rightarrow> (r, persisted conn')))"

text \<open>\<open>save_deck_to_db(deck_info)\<close>: the database file at \<open>DB_PATH\<close> is the argument
  \<open>db\<close>, and the result pairs the returned boolean with the database persisted after the
  call; \<open>except Exception\<close> turns every exception into \<open>False\<close>.\<close>

definition save_deck_to_db :: "nat option \<Rightarrow> nat \<Rightarrow> deck_info \<Rightarrow> database \<Rightarrow> bool \<times> database" where
  "save_deck_to_db fault now d db =
     (case save_deck_try fault now d db of
        (Inl e, db') \<Rightarrow> (False, db')
      | (Inr r, db') \<Rightarrow> (r, db'))"

text \<open>The number of storage calls that a run without storage faults makes.\<close>

definition storage_calls :: "nat \<Rightarrow> deck_info \<Rightarrow> database \<Rightarrow> nat" where
  "storage_calls now d db =
     (case sqlite3_connect None db of
        Inl e \<Rightarrow> 1
      | Inr conn \<Rightarrow> calls (snd (save_deck_body None now d conn)))"

text \<open>The association rows stored for the deck with a given url, in table order, as
  \<open>(card_name, is_extra_deck, quantity)\<close>.\<close>

definition deck_associations :: "database \<Rightarrow> string \<Rightarrow> (string \<times> bool \<times> int) list" where
  "deck_associations db u =
     (case filter (\<lambda>r. row_url r = u) (decks db) of
        [] \<Rightarrow> []
      | r # _ \<Rightarrow>
          map (\<lambda>c. (card_name c, is_extra_deck c, quantity c))
            (filter (\<lambda>c. deck_id c = row_id r) (deck_cards db)))"

text \<open>The association rows that a deck record asks for.\<close>

definition record_associations :: "deck_info \<Rightarrow> (string \<times> bool \<times> int) list" where
  "record_associations d =
     map (\<lambda>(n, c). (n, False, c)) (main_deck d) @ map (\<lambda>(n, c). (n, True, c)) (extra_deck d)"

text \<open>What \<open>AUTOINCREMENT\<close> maintains: no deck id and no \<open>deck_id\<close> of an association row
  is larger than the recorded sequence value.\<close>

definition wf_db :: "database \<Rightarrow> bool" where
  "wf_db db =
     ((\<forall>r\<in>set (decks db). row_id r \<le> decks_seq db) \<and>
      (\<forall>c\<in>set (deck_cards db). deck_id c \<le> decks_seq db))"

definition empty_db :: database where
  "empty_db = \<lparr>decks = [], deck_cards = [], decks_seq = 0\<rparr>"

text \<open>Example data, used to run the reconciler on concrete inputs.\<close>

definition example_deck :: deck_info where
  "example_deck = \<lparr>name = Some ''Blue-Eyes'', author = None,
     main_deck = [(''Ash Blossom'', 3), (''Maxx C'', 2)],
     extra_deck = [(''Accesscode Talker'', 1)], url = ''u1''\<rparr>"

definition example_deck_reduced :: deck_info where
  "example_deck_reduced = \<lparr>name = Some ''Blue-Eyes'', author = None,
     main_deck = [(''Ash Blossom'', 3)],
     extra_deck = [(''Accesscode Talker'', 1)], url = ''u1''\<rparr>"

definition example_deck_both_sections :: deck_info where
  "example_deck_both_sections = \<lparr>name = Some ''Blue-Eyes'', author = None,
     main_deck = [(''Ash Blossom'', 3)],
     extra_deck = [(''Accesscode Talker'', 1), (''Ash Blossom'', 1)], url = ''u1''\<rparr>"

definition example_db :: database where
  "example_db = \<lparr>decks =
       [\<lparr>row_id = 1, row_name = ''Blue-Eyes'', row_author = None,
         row_url = ''u1'', created_at = 5, last_updated = 5\<rparr>],
     deck_cards =
       [\<lparr>deck_id = 1, card_name = ''Ash Blossom'', is_extra_deck = False, quantity = 3\<rparr>,
        \<lparr>deck_id = 1, card_name = ''Maxx C'', is_extra_deck = False, quantity = 2\<rparr>,
        \<lparr>deck_id = 1, card_name = ''Accesscode Talker'', is_extra_deck = True, quantity = 1\<rparr>],
     decks_seq = 1\<rparr>"

text \<open>Three properties of a step of the transaction, used to reason about its sequencing:
  the step never touches the persisted database; a step that raises leaves the persisted
  database alone; and a step that returns under a fault at call \<open>k\<close> did not make call \<open>k\<close>
  and returns the same without the fault.\<close>

definition keeps_persisted :: "(connection \<Rightarrow> (py_error + 'a) \<times> connection) \<Rightarrow> bool" where
  "keeps_persisted m = (\<forall>conn r conn'. m conn = (r, conn') \<longrightarrow> persisted conn' = persisted conn)"

definition fails_clean :: "(connection \<Rightarrow> (py_error + 'a) \<times> connection) \<Rightarrow> bool" where
  "fails_clean m = (\<forall>conn e conn'. m conn = (Inl e, conn') \<longrightarrow> persisted conn' = persisted conn)"

definition avoids_fault ::
  "nat \<Rightarrow> (connection \<Rightarrow> (py_error + 'a) \<times> connection) \<Rightarrow> (connection \<Rightarrow> (py_error + 'a) \<times> connection) \<Rightarrow> bool" where
  "avoids_fault k m m0 =
     (\<forall>conn a conn'. m conn = (Inr a, conn') \<longrightarrow>
        m0 conn = (Inr a, conn') \<and> calls conn \<le> calls conn' \<and> (k < calls conn \<or> calls conn' \<le> k))"

section \<open>Facts about the Python string and list operations\<close>

lemma startswith_iff: "startswith s p \<longleftrightarrow> (\<exists>r. s = p @ r)"
  by (induction s p rule: startswith.induct) auto

lemma py_in_iff: "py_in w s \<longleftrightarrow> (\<exists>pre post. s = pre @ w @ post)"
proof (induction s)
  case Nil
  show ?case by auto
next
  case (Cons c cs)
  show ?case
  proof
    assume "py_in w (c # cs)"
    then consider "startswith (c # cs) w" | "py_in w cs" by auto
    then show "\<exists>pre post. c # cs = pre @ w @ post"
    proof cases
      case 1
      then obtain r where "c # cs = w @ r" by (auto simp: startswith_iff)
      then have "c # cs = [] @ w @ r" by simp
      then show ?thesis by blast
    next
      case 2
      then obtain pre post where "cs = pre @ w @ post" using Cons.IH by blast
      then have "c # cs = (c # pre) @ w @ post" by simp
      then show ?thesis by blast
    qed
  next
    assume "\<exists>pre post. c # cs = pre @ w @ post"
    then obtain pre post where e: "c # cs = pre @ w @ post" by blast
    show "py_in w (c # cs)"
    proof (cases pre)
      case Nil
      with e have "startswith (c # cs) w" by (auto simp: startswith_iff)
      then show ?thesis by simp
    next
      case (Cons a pre')
      with e have "cs = pre' @ w @ post" by simp
      then have "py_in w cs" using Cons.IH by blast
      then show ?thesis by simp
    qed
  qed
qed





lemma set_insort_desc: "set (insort_desc x ys) = insert x (set ys)"
  by (induction ys) auto

lemma distinct_insort_desc: "distinct (insort_desc x ys) = (x \<notin> set ys \<and> distinct ys)"
  by (induction ys) (auto simp: set_insort_desc)

lemma sorted_insort_desc:
  "sorted_wrt (\<lambda>a b. b \<le> a) ys \<Longrightarrow> sorted_wrt (\<lambda>a b. b \<le> a) (insort_desc x ys)"
  by (induction ys) (auto simp: set_insort_desc)

lemma set_sort_reverse: "set (sort_reverse xs) = set xs"
  unfolding sort_reverse_def by (induction xs) (simp_all add: set_insort_desc)

lemma distinct_sort_reverse: "distinct (sort_reverse xs) = distinct xs"
  unfolding sort_reverse_def
  by (induction xs) (simp_all add: distinct_insort_desc set_sort_reverse[unfolded sort_reverse_def])

lemma sorted_sort_reverse: "sorted_wrt (\<lambda>a b. b \<le> a) (sort_reverse xs)"
  unfolding sort_reverse_def by (induction xs) (simp_all add: sorted_insort_desc)

lemma slice_to_take: "\<exists>k. slice_to xs n = take k xs"
  unfolding slice_to_def by auto

lemma score_all_result:
  "score_all lw sp st sw cs acc = Inr ms \<Longrightarrow>
   ms = acc @ concat (map (\<lambda>c. case score_card lw sp st sw c of Inr (Some m) \<Rightarrow> [m] | _ \<Rightarrow> []) cs)"
proof (induction cs arbitrary: acc)
  case Nil
  then show ?case by simp
next
  case (Cons c cs)
  show ?case
  proof (cases "score_card lw sp st sw c")
    case (Inl e)
    with Cons.prems show ?thesis by simp
  next
    case (Inr r)
    show ?thesis
    proof (cases r)
      case None
      with Inr Cons.prems have "score_all lw sp st sw cs acc = Inr ms" by simp
      from Cons.IH[OF this] Inr None show ?thesis by simp
    next
      case (Some m)
      with Inr Cons.prems have "score_all lw sp st sw cs (acc @ [m]) = Inr ms" by simp
      from Cons.IH[OF this] Inr Some show ?thesis by simp
    qed
  qed
qed

lemma score_card_name: "score_card lw sp st sw c = Inr (Some m) \<Longrightarrow> snd m = c"
  by (auto simp: score_card_def Let_def split: if_splits list.splits)

lemma score_card_filter:
  "score_card lw sp st sw c = Inr (Some m) \<Longrightarrow> w \<in> set sw \<Longrightarrow> py_in w (lw c)"
  by (auto simp: score_card_def Let_def list_all_iff split: if_splits list.splits)

lemma score_all_members:
  assumes "score_all lw sp st sw cs [] = Inr ms" and "m \<in> set ms"
  shows "snd m \<in> set cs \<and> score_card lw sp st sw (snd m) = Inr (Some m)"
proof -
  from score_all_result[OF assms(1)] assms(2)
  obtain c where "c \<in> set cs" and "m \<in> set (case score_card lw sp st sw c of Inr (Some m) \<Rightarrow> [m] | _ \<Rightarrow> [])"
    by auto
  then have "c \<in> set cs" and "score_card lw sp st sw c = Inr (Some m)"
    by (auto split: sum.splits option.splits)
  then show ?thesis using score_card_name by blast
qed

lemma score_all_names:
  "score_all lw sp st sw cs [] = Inr ms \<Longrightarrow>
   map snd ms = filter (\<lambda>c. \<exists>m. score_card lw sp st sw c = Inr (Some m)) cs"
proof -
  assume a: "score_all lw sp st sw cs [] = Inr ms"
  have "map snd (concat (map (\<lambda>c. case score_card lw sp st sw c of Inr (Some m) \<Rightarrow> [m] | _ \<Rightarrow> []) cs))
        = filter (\<lambda>c. \<exists>m. score_card lw sp st sw c = Inr (Some m)) cs"
    by (induction cs) (auto split: sum.splits option.splits dest: score_card_name)
  with score_all_result[OF a] show ?thesis by simp
qed

lemma score_all_distinct:
  "score_all lw sp st sw cs [] = Inr ms \<Longrightarrow> distinct cs \<Longrightarrow> distinct (map snd ms)"
  by (simp add: score_all_names)

lemma suggestions_unfold:
  assumes "get_card_suggestions lw sp keys q n = Inr names"
  obtains ms k where "score_all lw sp q (split sp (lw q)) keys [] = Inr ms"
    and "names = map snd (take k (sort_reverse ms))"
    and "slice_to (sort_reverse ms) n = take k (sort_reverse ms)"
proof -
  from assms obtain ms where ms: "score_all lw sp q (split sp (lw q)) keys [] = Inr ms"
    and n: "names = map snd (slice_to (sort_reverse ms) n)"
    by (auto simp: get_card_suggestions_def Let_def split: sum.splits)
  obtain k where "slice_to (sort_reverse ms) n = take k (sort_reverse ms)"
    using slice_to_take by blast
  with ms n that show ?thesis by simp
qed









section \<open>Facts about the steps of the parser\<close>

lemma fold_invariant:
  assumes "\<And>x s. P s \<Longrightarrow> P (f x s)" and "P s"
  shows "P (fold f xs s)"
  using assms(2) by (induction xs arbitrary: s) (simp_all add: assms(1))

lemma url_append_entry: "url (append_entry e entry info) = url info"
  by (simp add: append_entry_def)

lemma url_parse_deck_part: "url (fst (parse_deck_part part st)) = url (fst st)"
proof -
  have "\<And>cards f info. url (fold (\<lambda>card_element info.
                            case part_card_entry card_element of
                              None \<Rightarrow> info
                            | Some entry \<Rightarrow> append_entry f entry info) cards info) = url info"
  proof -
    fix cards :: "node list" and f info
    show "url (fold (\<lambda>card_element info.
                            case part_card_entry card_element of
                              None \<Rightarrow> info
                            | Some entry \<Rightarrow> append_entry f entry info) cards info) = url info"
      by (induction cards arbitrary: info) (simp_all add: url_append_entry split: option.splits)
  qed
  then show ?thesis
    by (simp add: parse_deck_part_def Let_def split: option.splits)
qed

lemma url_parse_table: "url (fst (parse_table table st)) = url (fst st)"
proof -
  have "\<And>rows f st. url (fst (fold (\<lambda>row (info, parsed_cards).
                 case table_row_entry row of
                   None \<Rightarrow> (info, parsed_cards)
                 | Some entry \<Rightarrow> (append_entry f entry info, True)) rows st)) = url (fst st)"
  proof -
    fix rows :: "node list" and f and st :: "deck_info \<times> bool"
    show "url (fst (fold (\<lambda>row (info, parsed_cards).
                 case table_row_entry row of
                   None \<Rightarrow> (info, parsed_cards)
                 | Some entry \<Rightarrow> (append_entry f entry info, True)) rows st)) = url (fst st)"
      by (induction rows arbitrary: st)
         (simp_all add: url_append_entry split: option.splits prod.splits)
  qed
  then show ?thesis by (simp add: parse_table_def Let_def)
qed

lemma url_parse_text_line: "url (fst (parse_text_line f line st)) = url (fst st)"
  by (simp add: parse_text_line_def url_append_entry split: option.splits)

lemma url_parse_text_container: "url (fst (parse_text_container c st)) = url (fst st)"
  unfolding parse_text_container_def Let_def
  by (rule fold_invariant[where P = "\<lambda>s. url (fst s) = url (fst st)"])
     (simp_all add: url_parse_text_line)

lemma url_fold_step:
  assumes "\<And>x s. url (fst (f x s)) = url (fst s)"
  shows "url (fst (fold f xs st)) = url (fst st)"
  by (rule fold_invariant[where P = "\<lambda>s. url (fst s) = url (fst st)"]) (simp_all add: assms)

lemma url_extract_deck: "url (extract_deck soup u) = u"
  unfolding extract_deck_def Let_def
  by (simp add: url_fold_step url_parse_deck_part url_parse_table url_parse_text_container
        split: option.splits)


lemma clean_section_acc: "clean_section seen cleaned xs = cleaned @ clean_section seen [] xs"
proof (induction xs arbitrary: seen cleaned)
  case Nil
  show ?case by simp
next
  case (Cons x xs)
  show ?case
  proof (cases "fst x \<in> seen")
    case True
    with Cons.IH[of seen cleaned] show ?thesis by simp
  next
    case False
    have "clean_section (insert (fst x) seen) (cleaned @ [x]) xs
          = (cleaned @ [x]) @ clean_section (insert (fst x) seen) [] xs" by (rule Cons.IH)
    moreover have "clean_section (insert (fst x) seen) ([] @ [x]) xs
          = ([] @ [x]) @ clean_section (insert (fst x) seen) [] xs" by (rule Cons.IH)
    ultimately show ?thesis using False by simp
  qed
qed

lemma clean_section_names:
  "fst ` set (clean_section seen [] xs) \<inter> seen = {} \<and> distinct (map fst (clean_section seen [] xs))"
proof (induction xs arbitrary: seen)
  case Nil
  show ?case by simp
next
  case (Cons x xs)
  show ?case
  proof (cases "fst x \<in> seen")
    case True
    with Cons.IH[of seen] show ?thesis by simp
  next
    case False
    have e: "clean_section seen [] (x # xs) = x # clean_section (insert (fst x) seen) [] xs"
      using False clean_section_acc[of "insert (fst x) seen" "[x]" xs] by simp
    from Cons.IH[of "insert (fst x) seen"]
    have 1: "fst ` set (clean_section (insert (fst x) seen) [] xs) \<inter> insert (fst x) seen = {}"
      and 2: "distinct (map fst (clean_section (insert (fst x) seen) [] xs))" by simp_all
    from 1 have 3: "fst x \<notin> fst ` set (clean_section (insert (fst x) seen) [] xs)" by blast
    from 1 have 4: "fst ` set (clean_section (insert (fst x) seen) [] xs) \<inter> seen = {}" by blast
    from e 2 3 4 False show ?thesis by auto
  qed
qed

lemma clean_section_find:
  "find (\<lambda>e. fst e = n) (clean_section seen [] xs)
     = (if n \<in> seen then None else find (\<lambda>e. fst e = n) xs)"
proof (induction xs arbitrary: seen)
  case Nil
  show ?case by simp
next
  case (Cons x xs)
  show ?case
  proof (cases "fst x \<in> seen")
    case True
    with Cons.IH[of seen] show ?thesis by auto
  next
    case False
    have e: "clean_section seen [] (x # xs) = x # clean_section (insert (fst x) seen) [] xs"
      using False clean_section_acc[of "insert (fst x) seen" "[x]" xs] by simp
    show ?thesis unfolding e using Cons.IH[of "insert (fst x) seen"] False by auto
  qed
qed


lemma fold_text_lines:
  "fold (parse_text_line is_extra) lines (info, p) = (info', p') \<Longrightarrow>
   (is_extra \<longrightarrow> main_deck info' = main_deck info \<and>
        extra_deck info' = extra_deck info @ List.map_filter line_entry lines) \<and>
   (\<not> is_extra \<longrightarrow> main_deck info' = main_deck info @ List.map_filter line_entry lines \<and>
        extra_deck info' = extra_deck info)"
proof (induction lines arbitrary: info p)
  case Nil
  then show ?case by (simp add: List.map_filter_simps)
next
  case (Cons line lines)
  show ?case
  proof (cases "line_entry line")
    case None
    then have step: "parse_text_line is_extra line (info, p) = (info, p)"
      by (simp add: parse_text_line_def)
    from Cons.prems have "fold (parse_text_line is_extra) lines (parse_text_line is_extra line (info, p)) = (info', p')"
      by simp
    with step have "fold (parse_text_line is_extra) lines (info, p) = (info', p')" by simp
    from Cons.IH[OF this] None show ?thesis by (simp add: List.map_filter_simps)
  next
    case (Some entry)
    then have step: "parse_text_line is_extra line (info, p) = (append_entry is_extra entry info, True)"
      by (simp add: parse_text_line_def)
    from Cons.prems have "fold (parse_text_line is_extra) lines (parse_text_line is_extra line (info, p)) = (info', p')"
      by simp
    with step have "fold (parse_text_line is_extra) lines (append_entry is_extra entry info, True) = (info', p')" by simp
    from Cons.IH[OF this] Some show ?thesis
      by (simp add: List.map_filter_simps append_entry_def)
  qed
qed

section \<open>Properties of the deck markup parser\<close>

text \<open>
  Claim C1 as stated (in the block \<open>3x Ash Blossom / 2x Ghost Ogre / Extra Deck: /
  1x Accesscode Talker\<close> the two lines before the marker go to the main deck and the line
  after it to the extra deck) fails: the marker is looked for in the whole text of the block,
  once, and all three cards are placed in the extra deck.
\<close>

theorem text_block_split_counterexample:
  "main_deck (parse_deck_list example_text_block ''https://example.org/deck'') = [] \<and>
   extra_deck (parse_deck_list example_text_block ''https://example.org/deck'') =
     [(''Ash Blossom'', 3), (''Ghost Ogre'', 2), (''Accesscode Talker'', 1)]"
  by code_simp

text \<open>
  Claim C1, amended: the marker is scoped to the block.  Parsing the document of the
  scenario gives an empty main deck and the extra deck Ash Blossom 3, Ghost Ogre 2,
  Accesscode Talker 1.  In general, when the stripped text of a plain-text block contains
  \<open>Extra Deck\<close> or \<open>Extra:\<close> (ignoring case) anywhere, every card line of the block, before
  or after the marker, is appended to the extra deck and none to the main deck; when it
  contains no marker, every card line of the block is appended to the main deck.
\<close>

theorem text_block_marker_block_scoped:
  "(main_deck (parse_deck_list example_text_block source_url) = [] \<and>
    extra_deck (parse_deck_list example_text_block source_url) =
      [(''Ash Blossom'', 3), (''Ghost Ogre'', 2), (''Accesscode Talker'', 1)]) \<and>
   (parse_text_container container (info, parsed_cards) = (info', parsed_cards') \<longrightarrow>
      (let text_content = strip (get_text_lines container);
           entries = List.map_filter line_entry (splitlines text_content)
       in if re_extra_marker text_content
          then main_deck info' = main_deck info \<and> extra_deck info' = extra_deck info @ entries
          else main_deck info' = main_deck info @ entries \<and> extra_deck info' = extra_deck info))"
proof (intro conjI impI)
  show "main_deck (parse_deck_list example_text_block source_url) = []" by code_simp
  show "extra_deck (parse_deck_list example_text_block source_url) =
      [(''Ash Blossom'', 3), (''Ghost Ogre'', 2), (''Accesscode Talker'', 1)]" by code_simp
next
  assume run: "parse_text_container container (info, parsed_cards) = (info', parsed_cards')"
  show "let text_content = strip (get_text_lines container);
            entries = List.map_filter line_entry (splitlines text_content)
        in if re_extra_marker text_content
           then main_deck info' = main_deck info \<and> extra_deck info' = extra_deck info @ entries
           else main_deck info' = main_deck info @ entries \<and> extra_deck info' = extra_deck info"
    using run
      fold_text_lines[of "re_extra_marker (strip (get_text_lines container))"
        "splitlines (strip (get_text_lines container))" info parsed_cards info' parsed_cards']
    by (simp add: parse_text_container_def Let_def)
qed

theorem text_block_marker_block_scoped_witness:
  "parse_text_container (Tag ''pre'' (Some [''card-list''])
        [NavigableString ''3x Ash Blossom\<newline>Extra:\<newline>1x Accesscode Talker''])
     (\<lparr>name = Some [], author = Some [], main_deck = [(''Maxx C'', 2)], extra_deck = [],
       url = ''u''\<rparr>, False)
   = (\<lparr>name = Some [], author = Some [], main_deck = [(''Maxx C'', 2)],
        extra_deck = [(''Ash Blossom'', 3), (''Accesscode Talker'', 1)], url = ''u''\<rparr>, True) \<and>
   main_deck \<lparr>name = Some [], author = Some [], main_deck = [(''Maxx C'', 2)],
        extra_deck = [(''Ash Blossom'', 3), (''Accesscode Talker'', 1)], url = ''u''\<rparr>
     = main_deck \<lparr>name = Some [], author = Some [], main_deck = [(''Maxx C'', 2)],
        extra_deck = [], url = ''u''\<rparr>"
proof -
  let ?c = "Tag ''pre'' (Some [''card-list''])
        [NavigableString ''3x Ash Blossom\<newline>Extra:\<newline>1x Accesscode Talker'']"
  let ?i = "\<lparr>name = Some [], author = Some [], main_deck = [(''Maxx C'', 2)], extra_deck = [],
       url = ''u''\<rparr>"
  let ?j = "\<lparr>name = Some [], author = Some [], main_deck = [(''Maxx C'', 2)],
        extra_deck = [(''Ash Blossom'', 3), (''Accesscode Talker'', 1)], url = ''u''\<rparr>"
  have run: "parse_text_container ?c (?i, False) = (?j, True)" by code_simp
  have m: "re_extra_marker (strip (get_text_lines ?c))" by code_simp
  from text_block_marker_block_scoped[of _ ?c ?i False ?j True] run m
  have "main_deck ?j = main_deck ?i" by (simp add: Let_def)
  with run show ?thesis by simp
qed

text \<open>
  Claim C6: the parser is a total function of the document (the only operation of the
  \<open>try\<close> block that can raise on a parsed document, \<open>int\<close>, is caught where it is called,
  and the outer handler returns \<open>deck_info\<close> as well), and the record it returns carries the
  url it was given.
\<close>

theorem parse_preserves_url: "url (parse_deck_list soup source_url) = source_url"
  by (simp add: parse_deck_list_def Let_def url_extract_deck)

theorem parse_preserves_url_witness:
  "url (parse_deck_list (Tag ''[document]'' None [NavigableString ''no deck here''])
          ''https://example.org/deck'') = ''https://example.org/deck'' \<and>
   main_deck (parse_deck_list (Tag ''[document]'' None [NavigableString ''no deck here''])
          ''https://example.org/deck'') = [] \<and>
   extra_deck (parse_deck_list (Tag ''[document]'' None [NavigableString ''no deck here''])
          ''https://example.org/deck'') = []"
proof -
  let ?d = "Tag ''[document]'' None [NavigableString ''no deck here'']"
  have m: "main_deck (parse_deck_list ?d ''https://example.org/deck'') = []" by code_simp
  have x: "extra_deck (parse_deck_list ?d ''https://example.org/deck'') = []" by code_simp
  from parse_preserves_url[of ?d "''https://example.org/deck''"] m x show ?thesis by simp
qed

text \<open>
  Claim C7: in the record returned by the parser no two entries of the main deck share a card
  name and no two entries of the extra deck do; for every card name, the entry kept in a
  section is the first entry with that name that the extraction appended to the section, so
  later entries with the same name are dropped whatever their counts.
\<close>

theorem parse_sections_deduplicated:
  "distinct (map fst (main_deck (parse_deck_list soup source_url))) \<and>
   distinct (map fst (extra_deck (parse_deck_list soup source_url))) \<and>
   find (\<lambda>e. fst e = n) (main_deck (parse_deck_list soup source_url))
     = find (\<lambda>e. fst e = n) (main_deck (extract_deck soup source_url)) \<and>
   find (\<lambda>e. fst e = n) (extra_deck (parse_deck_list soup source_url))
     = find (\<lambda>e. fst e = n) (extra_deck (extract_deck soup source_url))"
  by (simp add: parse_deck_list_def Let_def clean_section_names clean_section_find)

theorem parse_sections_deduplicated_witness:
  "main_deck (extract_deck example_main_block ''u'') =
     [(''Ash Blossom'', 3), (''Ghost Ogre'', 2), (''Ash Blossom'', 1)] \<and>
   distinct (map fst (main_deck (parse_deck_list example_main_block ''u''))) \<and>
   find (\<lambda>e. fst e = ''Ash Blossom'') (main_deck (parse_deck_list example_main_block ''u''))
     = Some (''Ash Blossom'', 3)"
proof -
  have raw: "main_deck (extract_deck example_main_block ''u'') =
     [(''Ash Blossom'', 3), (''Ghost Ogre'', 2), (''Ash Blossom'', 1)]" by code_simp
  from parse_sections_deduplicated[of example_main_block "''u''" "''Ash Blossom''"] raw
  show ?thesis by simp
qed

section \<open>Facts about the transaction of the reconciler\<close>

lemma execute_persisted: "execute fault stmt conn = (r, conn') \<Longrightarrow> persisted conn' = persisted conn"
  by (auto simp: execute_def Let_def split: if_splits sum.splits prod.splits)

lemma keeps_execute: "keeps_persisted (execute fault stmt)"
  unfolding keeps_persisted_def using execute_persisted by blast

lemma keeps_succeed: "keeps_persisted (succeed a)"
  by (simp add: keeps_persisted_def succeed_def)

lemma keeps_and_then:
  assumes "keeps_persisted m" and "\<And>a. keeps_persisted (f a)"
  shows "keeps_persisted (and_then m f)"
  unfolding keeps_persisted_def
proof (intro allI impI)
  fix conn r conn'
  assume a: "and_then m f conn = (r, conn')"
  obtain r1 c1 where m: "m conn = (r1, c1)" by (cases "m conn")
  with assms(1) have p1: "persisted c1 = persisted conn" by (simp add: keeps_persisted_def)
  show "persisted conn' = persisted conn"
  proof (cases r1)
    case (Inl e)
    with a m have "conn' = c1" by (simp add: and_then_def)
    with p1 show ?thesis by simp
  next
    case (Inr x)
    with a m have "f x c1 = (r, conn')" by (simp add: and_then_def)
    with assms(2)[of x] have "persisted conn' = persisted c1" by (simp add: keeps_persisted_def)
    with p1 show ?thesis by simp
  qed
qed

lemma keeps_insert_cards: "keeps_persisted (insert_cards fault did ex cards)"
  unfolding keeps_persisted_def
proof (induction cards)
  case Nil
  show ?case by simp
next
  case (Cons entry cards)
  show ?case
  proof (intro allI impI)
    fix conn r conn'
    assume a: "insert_cards fault did ex (entry # cards) conn = (r, conn')"
    obtain r1 c1 where e: "execute fault (insert_deck_card did (fst entry) ex (snd entry)) conn = (r1, c1)"
      by (cases "execute fault (insert_deck_card did (fst entry) ex (snd entry)) conn")
    then have p1: "persisted c1 = persisted conn" by (rule execute_persisted)
    show "persisted conn' = persisted conn"
    proof (cases r1)
      case (Inl x)
      with a e p1 show ?thesis by simp
    next
      case (Inr u)
      with a e have "insert_cards fault did ex cards c1 = (r, conn')" by simp
      with Cons.IH p1 show ?thesis by simp
    qed
  qed
qed

lemma keeps_update_or_insert: "keeps_persisted (update_or_insert_deck fault now d existing)"
  unfolding update_or_insert_deck_def
  by (cases existing) (simp_all add: keeps_execute keeps_and_then keeps_succeed)

lemma fails_clean_and_then:
  assumes "keeps_persisted m" and "\<And>a. fails_clean (f a)"
  shows "fails_clean (and_then m f)"
  unfolding fails_clean_def
proof (intro allI impI)
  fix conn e conn'
  assume a: "and_then m f conn = (Inl e, conn')"
  obtain r1 c1 where m: "m conn = (r1, c1)" by (cases "m conn")
  with assms(1) have p1: "persisted c1 = persisted conn" by (simp add: keeps_persisted_def)
  show "persisted conn' = persisted conn"
  proof (cases r1)
    case (Inl e1)
    with a m have "conn' = c1" by (simp add: and_then_def)
    with p1 show ?thesis by simp
  next
    case (Inr x)
    with a m have "f x c1 = (Inl e, conn')" by (simp add: and_then_def)
    with assms(2)[of x] have "persisted conn' = persisted c1" by (simp add: fails_clean_def)
    with p1 show ?thesis by simp
  qed
qed

lemma fails_clean_commit: "fails_clean (and_then (commit fault) (\<lambda>_. succeed True))"
  by (auto simp: fails_clean_def and_then_def commit_def succeed_def Let_def split: if_splits)

lemma fails_clean_body: "fails_clean (save_deck_body fault now d)"
  unfolding save_deck_body_def
  by (intro fails_clean_and_then keeps_execute keeps_update_or_insert keeps_insert_cards
        fails_clean_commit)

lemma save_deck_try_raises:
  assumes "fst (save_deck_try fault now d db) = Inl e"
  shows "snd (save_deck_try fault now d db) = db"
proof (cases "sqlite3_connect fault db")
  case (Inl e')
  then show ?thesis by (simp add: save_deck_try_def)
next
  case (Inr conn)
  then have pc: "persisted conn = db" by (auto simp: sqlite3_connect_def split: if_splits)
  obtain r c' where b: "save_deck_body fault now d conn = (r, c')"
    by (cases "save_deck_body fault now d conn")
  show ?thesis
  proof (cases r)
    case (Inl e1)
    with b fails_clean_body[of fault now d] have "persisted c' = persisted conn"
      by (simp add: fails_clean_def)
    with Inl b Inr pc show ?thesis by (simp add: save_deck_try_def connection_exit_def)
  next
    case (Inr x)
    with b \<open>sqlite3_connect fault db = Inr conn\<close> assms show ?thesis
      by (simp add: save_deck_try_def connection_exit_def)
  qed
qed

lemma save_deck_false_unchanged:
  assumes "fst (save_deck_to_db fault now d db) = False"
  shows "snd (save_deck_to_db fault now d db) = db"
proof -
  obtain r db' where t: "save_deck_try fault now d db = (r, db')"
    by (cases "save_deck_try fault now d db")
  show ?thesis
  proof (cases r)
    case (Inl e)
    with t save_deck_try_raises[of fault now d db e] show ?thesis
      by (simp add: save_deck_to_db_def)
  next
    case (Inr b)
    with t assms have "b = False" by (simp add: save_deck_to_db_def)
    have "False"
    proof (cases "sqlite3_connect fault db")
      case (Inl e')
      with t Inr show ?thesis by (simp add: save_deck_try_def)
    next
      case (Inr conn)
      with t \<open>r = Inr b\<close> \<open>b = False\<close> show ?thesis
        by (auto simp: save_deck_try_def connection_exit_def save_deck_body_def and_then_def succeed_def
            split: prod.splits sum.splits)
    qed
    then show ?thesis ..
  qed
qed

lemma avoids_execute: "avoids_fault k (execute (Some k) stmt) (execute None stmt)"
  by (auto simp: avoids_fault_def execute_def Let_def split: if_splits sum.splits prod.splits)

lemma avoids_commit: "avoids_fault k (commit (Some k)) (commit None)"
  by (auto simp: avoids_fault_def commit_def Let_def split: if_splits)

lemma avoids_succeed: "avoids_fault k (succeed a) (succeed a)"
  by (auto simp: avoids_fault_def succeed_def not_less)

lemma avoids_and_then:
  assumes "avoids_fault k m m0" and "\<And>a. avoids_fault k (f a) (f0 a)"
  shows "avoids_fault k (and_then m f) (and_then m0 f0)"
  unfolding avoids_fault_def
proof (intro allI impI)
  fix conn b conn'
  assume a: "and_then m f conn = (Inr b, conn')"
  obtain r1 c1 where m: "m conn = (r1, c1)" by (cases "m conn")
  from a m obtain x where r1: "r1 = Inr x" by (cases r1) (simp_all add: and_then_def)
  with a m have f: "f x c1 = (Inr b, conn')" by (simp add: and_then_def)
  from assms(1) m r1 have m0: "m0 conn = (Inr x, c1)" and le1: "calls conn \<le> calls c1"
    and k1: "k < calls conn \<or> calls c1 \<le> k" by (simp_all add: avoids_fault_def)
  from assms(2)[of x] f have f0: "f0 x c1 = (Inr b, conn')" and le2: "calls c1 \<le> calls conn'"
    and k2: "k < calls c1 \<or> calls conn' \<le> k" by (simp_all add: avoids_fault_def)
  from m0 f0 have "and_then m0 f0 conn = (Inr b, conn')" by (simp add: and_then_def)
  moreover from le1 le2 have "calls conn \<le> calls conn'" by simp
  moreover from k1 k2 le1 le2 have "k < calls conn \<or> calls conn' \<le> k" by linarith
  ultimately show "and_then m0 f0 conn = (Inr b, conn') \<and> calls conn \<le> calls conn' \<and>
      (k < calls conn \<or> calls conn' \<le> k)" by simp
qed

lemma avoids_insert_cards:
  "avoids_fault k (insert_cards (Some k) did ex cards) (insert_cards None did ex cards)"
  unfolding avoids_fault_def
proof (induction cards)
  case Nil
  show ?case by (auto simp: not_less)
next
  case (Cons entry cards)
  let ?st = "insert_deck_card did (fst entry) ex (snd entry)"
  show ?case
  proof (intro allI impI)
    fix conn b conn'
    assume a: "insert_cards (Some k) did ex (entry # cards) conn = (Inr b, conn')"
    obtain r1 c1 where e: "execute (Some k) ?st conn = (r1, c1)"
      by (cases "execute (Some k) ?st conn")
    from a e obtain x where r1: "r1 = Inr x" by (cases r1) simp_all
    with a e have f: "insert_cards (Some k) did ex cards c1 = (Inr b, conn')" by simp
    from avoids_execute[of k ?st] e r1 have m0: "execute None ?st conn = (Inr x, c1)"
      and le1: "calls conn \<le> calls c1" and k1: "k < calls conn \<or> calls c1 \<le> k"
      by (simp_all add: avoids_fault_def)
    from Cons.IH f have f0: "insert_cards None did ex cards c1 = (Inr b, conn')"
      and le2: "calls c1 \<le> calls conn'" and k2: "k < calls c1 \<or> calls conn' \<le> k" by blast+
    from m0 f0 have "insert_cards None did ex (entry # cards) conn = (Inr b, conn')" by simp
    moreover from le1 le2 have "calls conn \<le> calls conn'" by simp
    moreover from k1 k2 le1 le2 have "k < calls conn \<or> calls conn' \<le> k" by linarith
    ultimately show "insert_cards None did ex (entry # cards) conn = (Inr b, conn') \<and>
        calls conn \<le> calls conn' \<and> (k < calls conn \<or> calls conn' \<le> k)" by simp
  qed
qed

lemma avoids_update_or_insert:
  "avoids_fault k (update_or_insert_deck (Some k) now d existing) (update_or_insert_deck None now d existing)"
  unfolding update_or_insert_deck_def
  by (cases existing) (simp_all add: avoids_execute avoids_and_then avoids_succeed)

lemma avoids_body: "avoids_fault k (save_deck_body (Some k) now d) (save_deck_body None now d)"
  unfolding save_deck_body_def
  by (intro avoids_and_then avoids_execute avoids_update_or_insert avoids_insert_cards
        avoids_commit avoids_succeed)

lemma injected_fault_raises:
  assumes "k < storage_calls now d db"
  shows "\<exists>e. fst (save_deck_try (Some k) now d db) = Inl e"
proof (cases "k = 0")
  case True
  then show ?thesis by (simp add: save_deck_try_def sqlite3_connect_def)
next
  case False
  let ?conn = "\<lparr>persisted = db, working = db, calls = 1\<rparr>"
  from False have c: "sqlite3_connect (Some k) db = Inr ?conn" by (simp add: sqlite3_connect_def)
  have c0: "sqlite3_connect None db = Inr ?conn" by (simp add: sqlite3_connect_def)
  obtain r c' where b: "save_deck_body (Some k) now d ?conn = (r, c')"
    by (cases "save_deck_body (Some k) now d ?conn")
  show ?thesis
  proof (cases r)
    case (Inl e)
    with b c show ?thesis by (simp add: save_deck_try_def connection_exit_def)
  next
    case (Inr x)
    with b avoids_body[of k now d] have b0: "save_deck_body None now d ?conn = (Inr x, c')"
      and kk: "k < calls ?conn \<or> calls c' \<le> k" unfolding avoids_fault_def by blast+
    from b0 c0 have "storage_calls now d db = calls c'" by (simp add: storage_calls_def)
    with assms kk False have False by simp
    then show ?thesis ..
  qed
qed

lemma and_then_Inr:
  assumes "and_then m f conn = (Inr b, conn')"
  obtains a c1 where "m conn = (Inr a, c1)" and "f a c1 = (Inr b, conn')"
proof -
  obtain r1 c1 where m: "m conn = (r1, c1)" by (cases "m conn")
  from assms m obtain a where "r1 = Inr a" by (cases r1) (simp_all add: and_then_def)
  with assms m that show ?thesis by (simp add: and_then_def)
qed

lemma execute_Inr:
  "execute fault stmt conn = (Inr a, conn') \<Longrightarrow> stmt (working conn) = Inr (a, working conn')"
  by (auto simp: execute_def Let_def split: if_splits sum.splits prod.splits)

lemma insert_deck_card_Inr:
  assumes "insert_deck_card did n ex q db = Inr (u, db')"
  shows "db' = db\<lparr>deck_cards := deck_cards db @
             [\<lparr>deck_id = did, card_name = n, is_extra_deck = ex, quantity = q\<rparr>]\<rparr>"
    and "\<not> (\<exists>r\<in>set (deck_cards db). deck_id r = did \<and> card_name r = n)"
  using assms by (auto simp: insert_deck_card_def split: if_splits)

lemma insert_cards_Inr:
  assumes "insert_cards fault did ex cards conn = (Inr u, conn')"
  shows "working conn' = (working conn)\<lparr>deck_cards := deck_cards (working conn) @
            map (\<lambda>e. \<lparr>deck_id = did, card_name = fst e, is_extra_deck = ex, quantity = snd e\<rparr>) cards\<rparr>
         \<and> (\<forall>e\<in>set cards. \<not> (\<exists>r\<in>set (deck_cards (working conn)). deck_id r = did \<and> card_name r = fst e))"
  using assms
proof (induction cards arbitrary: conn)
  case Nil
  then show ?case by simp
next
  case (Cons entry cards)
  let ?st = "insert_deck_card did (fst entry) ex (snd entry)"
  obtain r1 c1 where e: "execute fault ?st conn = (r1, c1)" by (cases "execute fault ?st conn")
  from Cons.prems e obtain x where r1: "r1 = Inr x" by (cases r1) simp_all
  with Cons.prems e have f: "insert_cards fault did ex cards c1 = (Inr u, conn')" by simp
  from e r1 have "?st (working conn) = Inr (x, working c1)" by (simp add: execute_Inr)
  from insert_deck_card_Inr[OF this]
  have w1: "working c1 = (working conn)\<lparr>deck_cards := deck_cards (working conn) @
             [\<lparr>deck_id = did, card_name = fst entry, is_extra_deck = ex, quantity = snd entry\<rparr>]\<rparr>"
    and n1: "\<not> (\<exists>r\<in>set (deck_cards (working conn)). deck_id r = did \<and> card_name r = fst entry)"
    by simp_all
  from Cons.IH[OF f]
  have w2: "working conn' = (working c1)\<lparr>deck_cards := deck_cards (working c1) @
            map (\<lambda>e. \<lparr>deck_id = did, card_name = fst e, is_extra_deck = ex, quantity = snd e\<rparr>) cards\<rparr>"
    and n2: "\<forall>e\<in>set cards. \<not> (\<exists>r\<in>set (deck_cards (working c1)). deck_id r = did \<and> card_name r = fst e)"
    by simp_all
  from w1 w2 have "working conn' = (working conn)\<lparr>deck_cards := deck_cards (working conn) @
            map (\<lambda>e. \<lparr>deck_id = did, card_name = fst e, is_extra_deck = ex, quantity = snd e\<rparr>) (entry # cards)\<rparr>"
    by simp
  moreover from n2 w1 have "\<forall>e\<in>set cards. \<not> (\<exists>r\<in>set (deck_cards (working conn)). deck_id r = did \<and> card_name r = fst e)"
    by simp
  ultimately show ?case using n1 by simp
qed

lemma fold_max_ge: "(a::int) \<le> fold max xs a"
proof (induction xs arbitrary: a)
  case Nil
  show ?case by simp
next
  case (Cons x xs)
  have "max x a \<le> fold max xs (max x a)" by (rule Cons.IH)
  then show ?case by simp
qed

lemma fold_max_ge_elem: "x \<in> set xs \<Longrightarrow> (x::int) \<le> fold max xs a"
proof (induction xs arbitrary: a)
  case Nil
  then show ?case by simp
next
  case (Cons y ys)
  show ?case
  proof (cases "x = y")
    case True
    have "max y a \<le> fold max ys (max y a)" by (rule fold_max_ge)
    with True show ?thesis by simp
  next
    case False
    with Cons.prems have "x \<in> set ys" by simp
    from Cons.IH[OF this] show ?thesis by simp
  qed
qed

lemma insert_deck_Inr:
  assumes "insert_deck nm au u now db = Inr (did, db')"
  shows "\<exists>n. did = fold max (map row_id (decks db)) (decks_seq db) + 1 \<and>
           db' = db\<lparr>decks := decks db @
                 [\<lparr>row_id = did, row_name = n, row_author = au, row_url = u,
                   created_at = now, last_updated = now\<rparr>], decks_seq := did\<rparr>"
proof (cases nm)
  case None
  with assms show ?thesis by (simp add: insert_deck_def)
next
  case (Some n)
  with assms have "did = fold max (map row_id (decks db)) (decks_seq db) + 1"
    and "db' = db\<lparr>decks := decks db @
                 [\<lparr>row_id = fold max (map row_id (decks db)) (decks_seq db) + 1, row_name = n,
                   row_author = au, row_url = u,
                   created_at = now, last_updated = now\<rparr>],
                 decks_seq := fold max (map row_id (decks db)) (decks_seq db) + 1\<rparr>"
    by (auto simp: insert_deck_def Let_def split: if_splits)
  then show ?thesis by blast
qed

lemma update_deck_Inr:
  assumes "update_deck nm au now did db = Inr (u, db')"
  shows "\<exists>f. db' = db\<lparr>decks := map (\<lambda>r. if row_id r = did then f r else r) (decks db)\<rparr> \<and>
             (\<forall>r. row_id (f r) = row_id r \<and> row_url (f r) = row_url r)"
proof (cases nm)
  case None
  with assms have "db' = db"
    by (auto simp: update_deck_def split: if_splits)
  then have "db' = db\<lparr>decks := map (\<lambda>r. if row_id r = did then (\<lambda>r. r) r else r) (decks db)\<rparr>"
    by simp
  then show ?thesis by (intro exI[of _ "\<lambda>r. r"]) simp
next
  case (Some n)
  with assms have "db' = db\<lparr>decks := map (\<lambda>r. if row_id r = did
       then (\<lambda>r. r\<lparr>row_name := n, row_author := au, last_updated := now\<rparr>) r else r) (decks db)\<rparr>"
    by (simp add: update_deck_def)
  then show ?thesis
    by (intro exI[of _ "\<lambda>r. r\<lparr>row_name := n, row_author := au, last_updated := now\<rparr>"]) simp
qed

lemma update_or_insert_Inr:
  assumes sel: "select_deck_id (url d) (working conn) = Inr (existing, w)"
    and run: "update_or_insert_deck fault now d existing conn = (Inr did, conn')"
    and wf: "wf_db (working conn)"
  shows "filter (\<lambda>c. deck_id c = did) (deck_cards (working conn')) = []"
    and "\<exists>r rest. filter (\<lambda>r. row_url r = url d) (decks (working conn')) = r # rest \<and> row_id r = did"
    and "wf_db (working conn')"
proof -
  let ?db = "working conn"
  have "filter (\<lambda>c. deck_id c = did) (deck_cards (working conn')) = [] \<and>
        (\<exists>r rest. filter (\<lambda>r. row_url r = url d) (decks (working conn')) = r # rest \<and> row_id r = did) \<and>
        wf_db (working conn')"
  proof (cases existing)
    case None
    with sel have nourl: "filter (\<lambda>r. row_url r = url d) (decks ?db) = []"
      by (auto simp: select_deck_id_def split: list.splits)
    from run None have "insert_deck (name d) (author d) (url d) now ?db = Inr (did, working conn')"
      by (simp add: update_or_insert_deck_def execute_Inr)
    from insert_deck_Inr[OF this] obtain n
      where did: "did = fold max (map row_id (decks ?db)) (decks_seq ?db) + 1"
      and w': "working conn' = ?db\<lparr>decks := decks ?db @
                 [\<lparr>row_id = did, row_name = n, row_author = author d, row_url = url d,
                   created_at = now, last_updated = now\<rparr>], decks_seq := did\<rparr>"
      by blast
    have big: "decks_seq ?db < did" using did fold_max_ge[of "decks_seq ?db" "map row_id (decks ?db)"] by simp
    have "\<forall>c\<in>set (deck_cards ?db). deck_id c \<noteq> did" using wf big by (auto simp: wf_db_def)
    then have 1: "filter (\<lambda>c. deck_id c = did) (deck_cards (working conn')) = []"
      using w' by (simp add: filter_empty_conv)
    have 2: "filter (\<lambda>r. row_url r = url d) (decks (working conn')) =
          [\<lparr>row_id = did, row_name = n, row_author = author d, row_url = url d,
                   created_at = now, last_updated = now\<rparr>]"
      using w' nourl by simp
    have 3: "wf_db (working conn')" using wf big w' by (auto simp: wf_db_def)
    from 1 2 3 show ?thesis by simp
  next
    case (Some did0)
    with sel obtain r rest where f: "filter (\<lambda>r. row_url r = url d) (decks ?db) = r # rest"
      and r: "row_id r = did0"
      by (auto simp: select_deck_id_def split: list.splits)
    from run Some obtain u1 c1 where e1: "execute fault (update_deck (name d) (author d) now did0) conn = (Inr u1, c1)"
      and rest1: "and_then (execute fault (delete_deck_cards did0)) (\<lambda>_. succeed did0) c1 = (Inr did, conn')"
      unfolding update_or_insert_deck_def by (auto elim: and_then_Inr)
    from rest1 obtain u2 c2 where e2: "execute fault (delete_deck_cards did0) c1 = (Inr u2, c2)"
      and rest2: "succeed did0 c2 = (Inr did, conn')" by (rule and_then_Inr)
    from rest2 have dd: "did = did0" and cc: "conn' = c2" by (simp_all add: succeed_def)
    from e1 have "update_deck (name d) (author d) now did0 ?db = Inr (u1, working c1)"
      by (rule execute_Inr)
    from update_deck_Inr[OF this] obtain g
      where w1: "working c1 = ?db\<lparr>decks := map (\<lambda>r. if row_id r = did0 then g r else r) (decks ?db)\<rparr>"
      and g: "\<forall>r. row_id (g r) = row_id r \<and> row_url (g r) = row_url r"
      by blast
    from e2 have "delete_deck_cards did0 (working c1) = Inr (u2, working c2)" by (rule execute_Inr)
    then have w2: "working c2 = (working c1)\<lparr>deck_cards := filter (\<lambda>r. deck_id r \<noteq> did0) (deck_cards (working c1))\<rparr>"
      by (simp add: delete_deck_cards_def)
    let ?upd = "\<lambda>r. if row_id r = did0 then g r else r"
    have 1: "filter (\<lambda>c. deck_id c = did) (deck_cards (working conn')) = []"
      using w2 cc dd by (simp add: filter_empty_conv)
    have fm: "\<And>xs. filter (\<lambda>r. row_url r = url d) (map ?upd xs) = map ?upd (filter (\<lambda>r. row_url r = url d) xs)"
    proof -
      fix xs show "filter (\<lambda>r. row_url r = url d) (map ?upd xs) = map ?upd (filter (\<lambda>r. row_url r = url d) xs)"
        using g by (induction xs) simp_all
    qed
    have "filter (\<lambda>r. row_url r = url d) (decks (working conn')) = ?upd r # map ?upd rest"
      using w1 w2 cc fm[of "decks ?db"] f by simp
    moreover have "row_id (?upd r) = did" using r dd g by simp
    ultimately have 2: "\<exists>r rest. filter (\<lambda>r. row_url r = url d) (decks (working conn')) = r # rest \<and> row_id r = did"
      by blast
    have 3: "wf_db (working conn')" using wf w1 w2 cc g by (auto simp: wf_db_def)
    from 1 2 3 show ?thesis by simp
  qed
  then show "filter (\<lambda>c. deck_id c = did) (deck_cards (working conn')) = []"
    and "\<exists>r rest. filter (\<lambda>r. row_url r = url d) (decks (working conn')) = r # rest \<and> row_id r = did"
    and "wf_db (working conn')" by simp_all
qed

lemma select_deck_id_same: "select_deck_id u db = Inr (x, db') \<Longrightarrow> db' = db"
  by (auto simp: select_deck_id_def split: list.splits)

lemma commit_Inr: "commit fault conn = (Inr u, conn') \<Longrightarrow> persisted conn' = working conn"
  by (auto simp: commit_def Let_def split: if_splits)

lemma filter_new_rows:
  "filter (\<lambda>c. deck_id c = did)
     (map (\<lambda>e. \<lparr>deck_id = did, card_name = fst e, is_extra_deck = ex, quantity = snd e\<rparr>) cards)
   = map (\<lambda>e. \<lparr>deck_id = did, card_name = fst e, is_extra_deck = ex, quantity = snd e\<rparr>) cards"
  by (induction cards) simp_all

lemma save_deck_body_steps:
  assumes "save_deck_body fault now d conn = (Inr b, conn')"
  obtains existing c1 did c2 u3 c3 u4 c4 where
    "select_deck_id (url d) (working conn) = Inr (existing, working conn)"
    and "working c1 = working conn"
    and "update_or_insert_deck fault now d existing c1 = (Inr did, c2)"
    and "insert_cards fault did False (main_deck d) c2 = (Inr u3, c3)"
    and "insert_cards fault did True (extra_deck d) c3 = (Inr u4, c4)"
    and "persisted conn' = working c4"
proof -
  from assms obtain existing c1 where
    s1: "execute fault (select_deck_id (url d)) conn = (Inr existing, c1)"
    and r1: "and_then (update_or_insert_deck fault now d existing) (\<lambda>did.
     and_then (insert_cards fault did False (main_deck d)) (\<lambda>_.
     and_then (insert_cards fault did True (extra_deck d)) (\<lambda>_.
     and_then (commit fault) (\<lambda>_.
     succeed True)))) c1 = (Inr b, conn')"
    unfolding save_deck_body_def by (rule and_then_Inr)
  from r1 obtain did c2 where
    s2: "update_or_insert_deck fault now d existing c1 = (Inr did, c2)"
    and r2: "and_then (insert_cards fault did False (main_deck d)) (\<lambda>_.
     and_then (insert_cards fault did True (extra_deck d)) (\<lambda>_.
     and_then (commit fault) (\<lambda>_.
     succeed True))) c2 = (Inr b, conn')"
    by (rule and_then_Inr)
  from r2 obtain u3 c3 where
    s3: "insert_cards fault did False (main_deck d) c2 = (Inr u3, c3)"
    and r3: "and_then (insert_cards fault did True (extra_deck d)) (\<lambda>_.
     and_then (commit fault) (\<lambda>_.
     succeed True)) c3 = (Inr b, conn')"
    by (rule and_then_Inr)
  from r3 obtain u4 c4 where
    s4: "insert_cards fault did True (extra_deck d) c3 = (Inr u4, c4)"
    and r4: "and_then (commit fault) (\<lambda>_. succeed True) c4 = (Inr b, conn')"
    by (rule and_then_Inr)
  from r4 obtain u5 c5 where
    s5: "commit fault c4 = (Inr u5, c5)" and r5: "succeed True c5 = (Inr b, conn')"
    by (rule and_then_Inr)
  from s1 have sel: "select_deck_id (url d) (working conn) = Inr (existing, working c1)"
    by (rule execute_Inr)
  then have w1: "working c1 = working conn" by (rule select_deck_id_same)
  from r5 have "conn' = c5" by (simp add: succeed_def)
  with s5 have p: "persisted conn' = working c4" by (simp add: commit_Inr)
  from sel w1 s2 s3 s4 p that show ?thesis by simp
qed

lemma save_deck_body_disjoint:
  assumes "save_deck_body fault now d conn = (Inr b, conn')"
    and "e1 \<in> set (main_deck d)" and "e2 \<in> set (extra_deck d)"
  shows "fst e1 \<noteq> fst e2"
proof -
  from assms(1) obtain did c2 u3 c3 u4 c4 where
    s3: "insert_cards fault did False (main_deck d) c2 = (Inr u3, c3)"
    and s4: "insert_cards fault did True (extra_deck d) c3 = (Inr u4, c4)"
    by (rule save_deck_body_steps)
  let ?row = "\<lparr>deck_id = did, card_name = fst e1, is_extra_deck = False, quantity = snd e1\<rparr>"
  from insert_cards_Inr[OF s3] assms(2) have "?row \<in> set (deck_cards (working c3))" by simp
  moreover from insert_cards_Inr[OF s4] assms(3)
  have "\<not> (\<exists>r\<in>set (deck_cards (working c3)). deck_id r = did \<and> card_name r = fst e2)" by simp
  ultimately show ?thesis by force
qed

lemma save_deck_body_success:
  assumes run: "save_deck_body fault now d conn = (Inr b, conn')" and wf: "wf_db (working conn)"
  shows "deck_associations (persisted conn') (url d) = record_associations d"
    and "wf_db (persisted conn')"
proof -
  from run obtain existing c1 did c2 u3 c3 u4 c4 where
    sel: "select_deck_id (url d) (working conn) = Inr (existing, working conn)"
    and w1: "working c1 = working conn"
    and s2: "update_or_insert_deck fault now d existing c1 = (Inr did, c2)"
    and s3: "insert_cards fault did False (main_deck d) c2 = (Inr u3, c3)"
    and s4: "insert_cards fault did True (extra_deck d) c3 = (Inr u4, c4)"
    and p: "persisted conn' = working c4"
    by (rule save_deck_body_steps)
  from sel w1 have sel1: "select_deck_id (url d) (working c1) = Inr (existing, working conn)" by simp
  from wf w1 have wf1: "wf_db (working c1)" by simp
  from update_or_insert_Inr[OF sel1 s2 wf1]
  have none: "filter (\<lambda>c. deck_id c = did) (deck_cards (working c2)) = []"
    and row: "\<exists>r rest. filter (\<lambda>r. row_url r = url d) (decks (working c2)) = r # rest \<and> row_id r = did"
    and wf2: "wf_db (working c2)" by simp_all
  let ?mk = "\<lambda>ex e. \<lparr>deck_id = did, card_name = fst e, is_extra_deck = ex, quantity = snd e\<rparr>"
  from insert_cards_Inr[OF s3] have w3: "working c3 = (working c2)\<lparr>deck_cards :=
      deck_cards (working c2) @ map (?mk False) (main_deck d)\<rparr>" by simp
  from insert_cards_Inr[OF s4] have w4: "working c4 = (working c3)\<lparr>deck_cards :=
      deck_cards (working c3) @ map (?mk True) (extra_deck d)\<rparr>" by simp
  from w3 w4 have dk: "decks (working c4) = decks (working c2)"
    and sq: "decks_seq (working c4) = decks_seq (working c2)"
    and dc: "deck_cards (working c4) = deck_cards (working c2) @ map (?mk False) (main_deck d)
                @ map (?mk True) (extra_deck d)" by simp_all
  from row obtain r rest where f: "filter (\<lambda>r. row_url r = url d) (decks (working c2)) = r # rest"
    and rid: "row_id r = did" by blast
  have fl: "filter (\<lambda>c. deck_id c = did) (deck_cards (working c4))
        = map (?mk False) (main_deck d) @ map (?mk True) (extra_deck d)"
    using dc none by (simp add: filter_new_rows)
  have "deck_associations (working c4) (url d) =
        map (\<lambda>c. (card_name c, is_extra_deck c, quantity c))
          (map (?mk False) (main_deck d) @ map (?mk True) (extra_deck d))"
    using f rid dk fl by (simp add: deck_associations_def)
  also have "\<dots> = record_associations d"
    by (simp add: record_associations_def comp_def case_prod_beta)
  finally show "deck_associations (persisted conn') (url d) = record_associations d"
    using p by simp
  have "r \<in> set (filter (\<lambda>r. row_url r = url d) (decks (working c2)))" using f by simp
  then have "r \<in> set (decks (working c2))" by simp
  with wf2 rid have "did \<le> decks_seq (working c2)" by (auto simp: wf_db_def)
  with wf2 dk sq dc have "wf_db (working c4)" by (auto simp: wf_db_def)
  with p show "wf_db (persisted conn')" by simp
qed

lemma save_deck_to_db_True:
  assumes "save_deck_to_db fault now d db = (True, db')"
  obtains conn' where "save_deck_body fault now d \<lparr>persisted = db, working = db, calls = 1\<rparr> = (Inr True, conn')"
    and "db' = persisted conn'" and "persisted conn' = working conn'"
proof (cases "sqlite3_connect fault db")
  case (Inl e)
  with assms show ?thesis by (simp add: save_deck_to_db_def save_deck_try_def)
next
  case (Inr conn)
  then have conn: "conn = \<lparr>persisted = db, working = db, calls = 1\<rparr>"
    by (auto simp: sqlite3_connect_def split: if_splits)
  obtain r c' where b: "save_deck_body fault now d conn = (r, c')"
    by (cases "save_deck_body fault now d conn")
  show ?thesis
  proof (cases r)
    case (Inl e)
    with b Inr assms show ?thesis
      by (simp add: save_deck_to_db_def save_deck_try_def connection_exit_def)
  next
    case (Inr x)
    with b \<open>sqlite3_connect fault db = Inr conn\<close> assms
    have x: "x = True" and db': "db' = working c'"
      by (simp_all add: save_deck_to_db_def save_deck_try_def connection_exit_def)
    from b Inr x conn have 1: "save_deck_body fault now d \<lparr>persisted = db, working = db, calls = 1\<rparr> = (Inr True, c')"
      by simp
    from 1 have "persisted c' = working c'"
      unfolding save_deck_body_def
      by (auto simp: commit_def succeed_def Let_def split: if_splits elim!: and_then_Inr)
    with 1 db' that show ?thesis by simp
  qed
qed

lemma save_deck_to_db_success:
  assumes "save_deck_to_db fault now d db = (True, db')" and "wf_db db"
  shows "deck_associations db' (url d) = record_associations d" and "wf_db db'"
proof -
  from assms(1) obtain conn' where
    b: "save_deck_body fault now d \<lparr>persisted = db, working = db, calls = 1\<rparr> = (Inr True, conn')"
    and db': "db' = persisted conn'" by (rule save_deck_to_db_True)
  have "wf_db (working \<lparr>persisted = db, working = db, calls = 1\<rparr>)" using assms(2) by simp
  from save_deck_body_success[OF b this] db'
  show "deck_associations db' (url d) = record_associations d" and "wf_db db'" by simp_all
qed

lemma save_deck_raises_False:
  assumes "fst (save_deck_try fault now d db) = Inl e"
  shows "save_deck_to_db fault now d db = (False, db)"
proof -
  from save_deck_try_raises[OF assms] assms show ?thesis
    by (cases "save_deck_try fault now d db") (simp add: save_deck_to_db_def)
qed

section \<open>Properties of the deck reconciler\<close>

text \<open>
  Claim C8: after a successful upsert of the deck record \<open>d\<close> into a database that carries
  the \<open>AUTOINCREMENT\<close> invariant, the association rows stored for the deck with url
  \<open>url d\<close> are exactly the rows asked for by \<open>d\<close> (main deck entries, then extra deck
  entries), whatever was stored before; so upserting the same record twice gives the same
  association rows as upserting it once, and a card absent from a re-imported record has no
  association row afterwards.
\<close>

theorem upsert_replaces_associations:
  assumes "wf_db db"
  shows "(save_deck_to_db fault now d db = (True, db') \<longrightarrow>
            deck_associations db' (url d) = record_associations d) \<and>
         (save_deck_to_db fa ta d db = (True, dba) \<and> save_deck_to_db fb tb d dba = (True, dbb) \<longrightarrow>
            deck_associations dbb (url d) = deck_associations dba (url d)) \<and>
         (save_deck_to_db fa ta d db = (True, dba) \<and> save_deck_to_db fb tb dn dba = (True, dbb) \<and>
          url dn = url d \<and> n \<notin> fst ` set (main_deck dn) \<and> n \<notin> fst ` set (extra_deck dn) \<longrightarrow>
            n \<notin> fst ` set (deck_associations dbb (url d)))"
proof (intro conjI impI)
  assume "save_deck_to_db fault now d db = (True, db')"
  from save_deck_to_db_success(1)[OF this assms]
  show "deck_associations db' (url d) = record_associations d" .
next
  assume a: "save_deck_to_db fa ta d db = (True, dba) \<and> save_deck_to_db fb tb d dba = (True, dbb)"
  then have 1: "save_deck_to_db fa ta d db = (True, dba)" and 2: "save_deck_to_db fb tb d dba = (True, dbb)"
    by simp_all
  from save_deck_to_db_success[OF 1 assms]
  have r1: "deck_associations dba (url d) = record_associations d" and wf1: "wf_db dba" by simp_all
  from save_deck_to_db_success(1)[OF 2 wf1] r1
  show "deck_associations dbb (url d) = deck_associations dba (url d)" by simp
next
  assume a: "save_deck_to_db fa ta d db = (True, dba) \<and> save_deck_to_db fb tb dn dba = (True, dbb) \<and>
          url dn = url d \<and> n \<notin> fst ` set (main_deck dn) \<and> n \<notin> fst ` set (extra_deck dn)"
  then have 1: "save_deck_to_db fa ta d db = (True, dba)" and 2: "save_deck_to_db fb tb dn dba = (True, dbb)"
    and u: "url dn = url d" and nm: "n \<notin> fst ` set (main_deck dn)" and ne: "n \<notin> fst ` set (extra_deck dn)"
    by simp_all
  from save_deck_to_db_success(2)[OF 1 assms] have wf1: "wf_db dba" .
  from save_deck_to_db_success(1)[OF 2 wf1] u
  have "deck_associations dbb (url d) = record_associations dn" by simp
  moreover have "n \<notin> fst ` set (record_associations dn)"
    using nm ne by (force simp: record_associations_def)
  ultimately show "n \<notin> fst ` set (deck_associations dbb (url d))" by simp
qed

theorem upsert_replaces_associations_witness:
  "wf_db empty_db \<and>
   save_deck_to_db None 5 example_deck empty_db = (True, example_db) \<and>
   deck_associations example_db ''u1'' =
     [(''Ash Blossom'', False, 3), (''Maxx C'', False, 2), (''Accesscode Talker'', True, 1)] \<and>
   deck_associations (snd (save_deck_to_db None 7 example_deck example_db)) ''u1'' =
     deck_associations example_db ''u1'' \<and>
   ''Maxx C'' \<notin> fst ` set (deck_associations
        (snd (save_deck_to_db None 9 example_deck_reduced example_db)) ''u1'')"
proof -
  have wf: "wf_db empty_db" by (simp add: wf_db_def empty_db_def)
  have s1: "save_deck_to_db None 5 example_deck empty_db = (True, example_db)" by code_simp
  have s2: "save_deck_to_db None 7 example_deck example_db =
              (True, snd (save_deck_to_db None 7 example_deck example_db))" by code_simp
  have s3: "save_deck_to_db None 9 example_deck_reduced example_db =
              (True, snd (save_deck_to_db None 9 example_deck_reduced example_db))" by code_simp
  have u: "url example_deck_reduced = url example_deck" by code_simp
  have u1: "url example_deck = ''u1''" by code_simp
  have n1: "''Maxx C'' \<notin> fst ` set (main_deck example_deck_reduced)" by code_simp
  have n2: "''Maxx C'' \<notin> fst ` set (extra_deck example_deck_reduced)" by code_simp
  have r: "record_associations example_deck =
     [(''Ash Blossom'', False, 3), (''Maxx C'', False, 2), (''Accesscode Talker'', True, 1)]"
    by code_simp
  from upsert_replaces_associations[OF wf, where fault = None and now = 5 and d = example_deck
      and db' = example_db and fa = None and ta = 5 and dba = example_db and fb = None and tb = 7
      and dbb = "snd (save_deck_to_db None 7 example_deck example_db)"]
    s1 s2 u1 r
  have a: "deck_associations example_db ''u1'' =
     [(''Ash Blossom'', False, 3), (''Maxx C'', False, 2), (''Accesscode Talker'', True, 1)]"
    and b: "deck_associations (snd (save_deck_to_db None 7 example_deck example_db)) ''u1'' =
     deck_associations example_db ''u1''" by simp_all
  from upsert_replaces_associations[OF wf, where d = example_deck
      and fa = None and ta = 5 and dba = example_db and fb = None and tb = 9
      and dn = example_deck_reduced and n = "''Maxx C''"
      and dbb = "snd (save_deck_to_db None 9 example_deck_reduced example_db)"]
    s1 s3 u u1 n1 n2
  have c: "''Maxx C'' \<notin> fst ` set (deck_associations
        (snd (save_deck_to_db None 9 example_deck_reduced example_db)) ''u1'')" by simp
  from wf s1 a b c show ?thesis by simp
qed

text \<open>
  Claim C9: whenever the storage layer fails during an upsert, by a violated constraint or
  a value that cannot be bound (the \<open>try\<close> block raises) or by a failure of any of the
  storage calls that the run makes (\<open>k < storage_calls now d db\<close>), the operation returns
  \<open>False\<close> instead of raising and the persisted database, deck rows and association rows
  alike, is the one from before the call; no result \<open>False\<close> comes with a changed database.
\<close>

theorem upsert_failure_atomic:
  "(fst (save_deck_try fault now d db) = Inl e \<longrightarrow> save_deck_to_db fault now d db = (False, db)) \<and>
   (k < storage_calls now d db \<longrightarrow> save_deck_to_db (Some k) now d db = (False, db)) \<and>
   (fst (save_deck_to_db fault now d db) = False \<longrightarrow> snd (save_deck_to_db fault now d db) = db)"
proof (intro conjI impI)
  assume "fst (save_deck_try fault now d db) = Inl e"
  then show "save_deck_to_db fault now d db = (False, db)" by (rule save_deck_raises_False)
next
  assume "k < storage_calls now d db"
  from injected_fault_raises[OF this] obtain e' where "fst (save_deck_try (Some k) now d db) = Inl e'"
    by blast
  then show "save_deck_to_db (Some k) now d db = (False, db)" by (rule save_deck_raises_False)
next
  assume "fst (save_deck_to_db fault now d db) = False"
  then show "snd (save_deck_to_db fault now d db) = db" by (rule save_deck_false_unchanged)
qed

theorem upsert_failure_atomic_witness:
  "fst (save_deck_try None 7 example_deck_both_sections example_db) = Inl IntegrityError \<and>
   4 < storage_calls 7 example_deck_both_sections example_db \<and>
   save_deck_to_db None 7 example_deck_both_sections example_db = (False, example_db) \<and>
   save_deck_to_db (Some 4) 7 example_deck_both_sections example_db = (False, example_db)"
proof -
  have e: "fst (save_deck_try None 7 example_deck_both_sections example_db) = Inl IntegrityError"
    by code_simp
  have k: "4 < storage_calls 7 example_deck_both_sections example_db" by code_simp
  from upsert_failure_atomic[where fault = None and now = 7 and d = example_deck_both_sections
      and db = example_db and e = IntegrityError and k = 4] e k
  show ?thesis by simp
qed

text \<open>
  Claim C10: a deck record whose main deck and extra deck both hold an entry for the same
  card name is never stored: the second insert of that name for the deck violates the
  primary key \<open>(deck_id, card_name)\<close>, so the upsert returns \<open>False\<close> and the persisted
  database is unchanged.
\<close>

theorem card_in_both_sections_rejected:
  assumes "(n, c1) \<in> set (main_deck d)" and "(n, c2) \<in> set (extra_deck d)"
  shows "save_deck_to_db fault now d db = (False, db)"
proof -
  obtain ok db' where r: "save_deck_to_db fault now d db = (ok, db')"
    by (cases "save_deck_to_db fault now d db")
  have "\<not> ok"
  proof
    assume ok
    with r have "save_deck_to_db fault now d db = (True, db')" by simp
    then obtain conn' where
      "save_deck_body fault now d \<lparr>persisted = db, working = db, calls = 1\<rparr> = (Inr True, conn')"
      by (rule save_deck_to_db_True)
    from save_deck_body_disjoint[OF this assms] show False by simp
  qed
  with r save_deck_false_unchanged[of fault now d db] show ?thesis by simp
qed

theorem card_in_both_sections_rejected_witness:
  "save_deck_to_db None 5 example_deck_both_sections empty_db = (False, empty_db)"
proof -
  have m: "(''Ash Blossom'', 3) \<in> set (main_deck example_deck_both_sections)" by code_simp
  have x: "(''Ash Blossom'', 1) \<in> set (extra_deck example_deck_both_sections)" by code_simp
  from card_in_both_sections_rejected[OF m x] show ?thesis .
qed

section \<open>Properties of the name scorer\<close>

lemma empty_catalog_no_suggestions: "get_card_suggestions lw sp [] search_terms n = Inr []"
  by (simp add: get_card_suggestions_def sort_reverse_def slice_to_def)

text \<open>
  Claim C2 as stated (candidates with equal scores keep the catalog's iteration order) fails:
  for the query \<open>a\<close> the names \<open>ab\<close> and \<open>ac\<close> get the same score, and the catalog
  that lists \<open>ab\<close> first gets \<open>ac\<close> first in the suggestions.
\<close>

theorem tie_break_catalog_order_counterexample:
  "score_of lower isspace ''a'' ''ab'' = score_of lower isspace ''a'' ''ac'' \<and>
   get_card_suggestions lower isspace [''ab'', ''ac''] ''a'' 5 = Inr [''ac'', ''ab'']"
  by code_simp

text \<open>
  Claim C2, amended: the list that is sorted holds the tuples \<open>(score, name)\<close>, so two
  returned names with equal scores appear in descending order of the names themselves (code
  point order), whatever the catalog's iteration order: of two such names the one returned
  later is the smaller one.
\<close>

theorem tie_break_descending_name:
  assumes "distinct keys" and "get_card_suggestions str_lower str_isspace keys q n = Inr names"
    and "i < j" and "j < length names"
    and "score_card str_lower str_isspace q (split str_isspace (str_lower q)) (names ! i)
           = Inr (Some (s, names ! i))"
    and "score_card str_lower str_isspace q (split str_isspace (str_lower q)) (names ! j)
           = Inr (Some (s, names ! j))"
  shows "names ! j < names ! i"
proof -
  from assms(2) obtain ms k where ms: "score_all str_lower str_isspace q (split str_isspace (str_lower q)) keys [] = Inr ms"
    and names: "names = map snd (take k (sort_reverse ms))"
    by (rule suggestions_unfold)
  let ?t = "take k (sort_reverse ms)"
  have len: "j < length ?t" "i < length ?t" using assms(3,4) names by auto
  have srt: "sorted_wrt (\<lambda>a b. b \<le> a) ?t"
    using sorted_sort_reverse[of ms] by (rule sorted_wrt_take)
  have le: "?t ! j \<le> ?t ! i"
    using srt assms(3) len by (simp add: sorted_wrt_iff_nth_less)
  have mem: "?t ! i \<in> set ms" "?t ! j \<in> set ms"
  proof -
    have "set ?t \<subseteq> set ms" using set_sort_reverse[of ms] set_take_subset[of k "sort_reverse ms"] by simp
    with len show "?t ! i \<in> set ms" "?t ! j \<in> set ms" using nth_mem by blast+
  qed
  have ni: "names ! i = snd (?t ! i)" and nj: "names ! j = snd (?t ! j)"
    using names len by simp_all
  from score_all_members[OF ms mem(1)] assms(5) ni have ti: "?t ! i = (s, names ! i)" by simp
  from score_all_members[OF ms mem(2)] assms(6) nj have tj: "?t ! j = (s, names ! j)" by simp
  have "distinct (map snd (sort_reverse ms))"
    using score_all_distinct[OF ms assms(1)]
    by (simp add: distinct_map distinct_sort_reverse set_sort_reverse)
  then have "distinct (take k (map snd (sort_reverse ms)))" by (rule distinct_take)
  then have "distinct names" using names by (simp add: take_map)
  then have "names ! i \<noteq> names ! j"
    using assms(3,4) nth_eq_iff_index_eq[of names i j] by simp
  with le ti tj show ?thesis by (auto simp: less_eq_prod_def)
qed

theorem tie_break_descending_name_witness:
  "get_card_suggestions lower isspace [''ab'', ''ac''] ''a'' 5 = Inr [''ac'', ''ab''] \<and> ''ab'' < ''ac''"
proof -
  have d: "distinct [''ab'', ''ac'']" by simp
  have g: "get_card_suggestions lower isspace [''ab'', ''ac''] ''a'' 5 = Inr [''ac'', ''ab'']" by code_simp
  have i: "(0::nat) < 1" by simp
  have j: "1 < length [''ac'', ''ab'']" by simp
  have si: "score_card lower isspace ''a'' (split isspace (lower ''a'')) ([''ac'', ''ab''] ! 0)
            = Inr (Some (124, [''ac'', ''ab''] ! 0))" by code_simp
  have sj: "score_card lower isspace ''a'' (split isspace (lower ''a'')) ([''ac'', ''ab''] ! 1)
            = Inr (Some (124, [''ac'', ''ab''] ! 1))" by code_simp
  from tie_break_descending_name[OF d g i j si sj] g show ?thesis by simp
qed

text \<open>
  Claim C3 (an empty query returns an empty sequence without raising, for every catalog):
  with an empty query, or one of whitespace only, \<open>search_words\<close> is empty, every card
  passes the filter, and \<open>search_words[0]\<close> raises \<open>IndexError\<close> for the first card of a
  non-empty catalog.
\<close>

theorem empty_query_raises_IndexError:
  "get_card_suggestions lower isspace [''Dark Magician''] [] 5 = Inl IndexError \<and>
   get_card_suggestions lower isspace [''Dark Magician''] ''  '' 5 = Inl IndexError"
  by code_simp




text \<open>
  The condition on the length is needed.  With code points as integers, a lowering that
  turns the code point 304 (U+0130) into the two code points 105 and 775, as \<open>str.lower\<close>
  does, and the space as the only whitespace: for the query \<open>[304, 32, 304]\<close> the name equal
  to the query scores 223, the name \<open>[304]\<close> scores 224, and with \<open>n = 1\<close> only the latter
  is returned.
\<close>

lemma lengthening_lower_example:
  "score_of (\<lambda>s. concat (map (\<lambda>c. if c = 304 then [105, 775] else [c]) s)) (\<lambda>c. c = 32)
     [304, 32, 304] [304, 32, 304 :: int] = Some 223 \<and>
   score_of (\<lambda>s. concat (map (\<lambda>c. if c = 304 then [105, 775] else [c]) s)) (\<lambda>c. c = 32)
     [304, 32, 304] [304 :: int] = Some 224 \<and>
   get_card_suggestions (\<lambda>s. concat (map (\<lambda>c. if c = 304 then [105, 775] else [c]) s))
     (\<lambda>c. c = 32) [[304, 32, 304], [304]] [304, 32, 304 :: int] 1 = Inr [[304]]"
  by code_simp

text \<open>
  Claim C5: every name that the scorer returns contains, in its lowercased form, each
  lowercase whitespace-delimited token of the query as a substring.
\<close>

theorem coarse_filter_sound:
  assumes "get_card_suggestions str_lower str_isspace keys search_terms n = Inr names"
    and "suggestion \<in> set names" and "word \<in> set (split str_isspace (str_lower search_terms))"
  shows "py_in word (str_lower suggestion) \<and>
         (\<exists>pre post. str_lower suggestion = pre @ word @ post)"
proof -
  from assms(1) obtain ms k where ms: "score_all str_lower str_isspace search_terms (split str_isspace (str_lower search_terms)) keys [] = Inr ms"
    and names: "names = map snd (take k (sort_reverse ms))"
    by (rule suggestions_unfold)
  from assms(2) names obtain m where "m \<in> set (take k (sort_reverse ms))" and "suggestion = snd m"
    by auto
  then have "m \<in> set ms" using set_sort_reverse[of ms] by (auto dest: in_set_takeD)
  from score_all_members[OF ms this] \<open>suggestion = snd m\<close>
  have "score_card str_lower str_isspace search_terms (split str_isspace (str_lower search_terms)) suggestion = Inr (Some m)" by simp
  from score_card_filter[OF this assms(3)] show ?thesis by (simp add: py_in_iff)
qed

theorem coarse_filter_sound_witness:
  "get_card_suggestions lower isspace [''Dark Magician'', ''Dark Magician Girl'', ''Blue-Eyes White Dragon'']
     ''dark magician'' 5 = Inr [''Dark Magician'', ''Dark Magician Girl''] \<and>
   py_in ''magician'' (lower ''Dark Magician Girl'')"
proof -
  have g: "get_card_suggestions lower isspace [''Dark Magician'', ''Dark Magician Girl'', ''Blue-Eyes White Dragon'']
     ''dark magician'' 5 = Inr [''Dark Magician'', ''Dark Magician Girl'']" by code_simp
  have n: "''Dark Magician Girl'' \<in> set [''Dark Magician'', ''Dark Magician Girl'']" by simp
  have w: "''magician'' \<in> set (split isspace (lower ''dark magician''))" by code_simp
  from coarse_filter_sound[OF g n w] g show ?thesis by simp
qed

end
